theory Spec2Isabelle
  imports
    Complex_Main
    "HOL-Library.Char_ord"
    "HOL-Library.List_Lexorder"
    "HOL-Library.AList"
begin

section \<open>Shared conventions\<close>

text \<open>
  Go strings are byte sequences: \<^typ>\<open>string\<close> (a list of 8-bit characters).
  A \<open>time.Time\<close> is the instant it denotes, in nanoseconds since the Unix epoch.
  A Go \<open>map[string]string\<close> is an association list with distinct keys, in the order a
  \<open>range\<close> loop happens to visit it; a lookup is \<^const>\<open>map_of\<close>.
  A Go \<open>map[string]bool\<close> that only ever stores \<open>true\<close> is the set of its keys.
\<close>

type_synonym time = int
type_synonym file_map = "(string \<times> string) list"

section \<open>types/problem.go: problems and their steps\<close>

record Problem =
  ID :: int
  Unique :: string
  Note :: string
  ProblemType :: string
  Tags :: "string list"
  Options :: "string list"
  CreatedAt :: time
  UpdatedAt :: time

text \<open>
  \<open>Weight\<close> is a \<open>float64\<close> in the source. The model keeps the finite values (a
  \<^typ>\<open>real\<close>): the only operations on it are the comparison with zero and the
  assignment of \<open>1.0\<close> in \<open>ProblemStep.Normalize\<close>, and its formatting in
  \<open>ComputeSignature\<close>, which is taken as a parameter there.
\<close>

record ProblemStep =
  ProblemID :: int
  Step :: int
  Note :: string
  Instructions :: string
  Weight :: real
  Files :: file_map

subsection \<open>GetStepWhitelists\<close>

text \<open>
  \<open>strings.Split(name, "/")\<close> for the one-byte separator: the pieces between the
  separators, always at least one piece.
\<close>

fun Split :: "string \<Rightarrow> char \<Rightarrow> string list" where
  "Split [] sep = [[]]"
| "Split (c # cs) sep =
     (if c = sep then [] # Split cs sep
      else (case Split cs sep of
              [] \<Rightarrow> [[c]]
            | p # ps \<Rightarrow> (c # p) # ps))"

text \<open>
  The inner loop over \<open>step.Files\<close>: every name whose split at \<open>/\<close> has one piece is
  set to \<open>true\<close> in \<open>m\<close>.
\<close>

fun add_root_files :: "file_map \<Rightarrow> string set \<Rightarrow> string set" where
  "add_root_files [] m = m"
| "add_root_files ((name, contents) # fs) m =
     add_root_files fs (if length (Split name CHR ''/'') = 1 then insert name m else m)"

text \<open>
  The first inner loop: everything of the last list computed so far is carried
  forward (nothing when there is none yet).
\<close>

definition carry_forward :: "string set list \<Rightarrow> string set" where
  "carry_forward lsts = (if length lsts > 0 then lsts ! (length lsts - 1) else {})"

text \<open>The outer loop; \<open>lsts\<close> is the source's \<open>lists\<close>.\<close>

fun whitelists_loop :: "ProblemStep list \<Rightarrow> string set list \<Rightarrow> string set list" where
  "whitelists_loop [] lsts = lsts"
| "whitelists_loop (step # steps) lsts =
     whitelists_loop steps (lsts @ [add_root_files (Files step) (carry_forward lsts)])"

definition GetStepWhitelists :: "Problem \<Rightarrow> ProblemStep list \<Rightarrow> string set list" where
  "GetStepWhitelists problem steps = whitelists_loop steps []"

text \<open>The root-level names of a step: those of its files with no path separator.\<close>

definition root_names :: "ProblemStep \<Rightarrow> string set" where
  "root_names step = {name \<in> fst ` set (Files step). CHR ''/'' \<notin> set name}"

subsection \<open>Strings\<close>

text \<open>\<open>rest\<close> when \<open>s\<close> is \<open>pre\<close> followed by \<open>rest\<close>.\<close>

fun strip_prefix :: "string \<Rightarrow> string \<Rightarrow> string option" where
  "strip_prefix [] s = Some s"
| "strip_prefix (p # ps) [] = None"
| "strip_prefix (p # ps) (c # cs) = (if p = c then strip_prefix ps cs else None)"

definition HasPrefix :: "string \<Rightarrow> string \<Rightarrow> bool" where
  "HasPrefix s pre \<longleftrightarrow> strip_prefix pre s \<noteq> None"

definition HasSuffix :: "string \<Rightarrow> string \<Rightarrow> bool" where
  "HasSuffix s suf \<longleftrightarrow> strip_prefix (rev suf) (rev s) \<noteq> None"

fun Contains :: "string \<Rightarrow> string \<Rightarrow> bool" where
  "Contains [] sub = (sub = [])"
| "Contains (c # cs) sub = (strip_prefix sub (c # cs) \<noteq> None \<or> Contains cs sub)"

lemma strip_prefix_length:
  "strip_prefix pre s = Some rest \<Longrightarrow> length s = length pre + length rest"
  by (induction pre s rule: strip_prefix.induct) (auto split: if_splits)

text \<open>
  \<open>strings.Replace(s, old, new, -1)\<close> for a non-empty \<open>old\<close> (the only use in the
  sources): every occurrence, found from left to right without overlap, is replaced.
\<close>

function Replace :: "string \<Rightarrow> string \<Rightarrow> string \<Rightarrow> string" where
  "Replace s old new =
     (if old = [] then s
      else (case strip_prefix old s of
              Some rest \<Rightarrow> new @ Replace rest old new
            | None \<Rightarrow> (case s of [] \<Rightarrow> [] | c # cs \<Rightarrow> c # Replace cs old new)))"
  by pat_completeness auto
termination
  by (relation "measure (\<lambda>(s, old, new). length s)")
     (auto dest: strip_prefix_length)

declare Replace.simps [simp del]

text \<open>
  The UTF-8 encodings of the code points \<open>unicode.IsSpace\<close> accepts: U+0009 to U+000D,
  U+0020, U+0085, U+00A0, U+1680, U+2000 to U+200A, U+2028, U+2029, U+202F, U+205F, U+3000.
\<close>

definition space_runes :: "string list" where
  "space_runes =
     [[CHR 0x09], [CHR 0x0A], [CHR 0x0B], [CHR 0x0C], [CHR 0x0D], [CHR 0x20],
      [CHR 0xC2, CHR 0x85], [CHR 0xC2, CHR 0xA0], [CHR 0xE1, CHR 0x9A, CHR 0x80],
      [CHR 0xE2, CHR 0x80, CHR 0x80], [CHR 0xE2, CHR 0x80, CHR 0x81],
      [CHR 0xE2, CHR 0x80, CHR 0x82], [CHR 0xE2, CHR 0x80, CHR 0x83],
      [CHR 0xE2, CHR 0x80, CHR 0x84], [CHR 0xE2, CHR 0x80, CHR 0x85],
      [CHR 0xE2, CHR 0x80, CHR 0x86], [CHR 0xE2, CHR 0x80, CHR 0x87],
      [CHR 0xE2, CHR 0x80, CHR 0x88], [CHR 0xE2, CHR 0x80, CHR 0x89],
      [CHR 0xE2, CHR 0x80, CHR 0x8A], [CHR 0xE2, CHR 0x80, CHR 0xA8],
      [CHR 0xE2, CHR 0x80, CHR 0xA9], [CHR 0xE2, CHR 0x80, CHR 0xAF],
      [CHR 0xE2, CHR 0x81, CHR 0x9F], [CHR 0xE3, CHR 0x80, CHR 0x80]]"

text \<open>
  The string after its first rune when that rune is a space, and the string before its
  last rune when that rune is a space.
\<close>

definition leading_space :: "string \<Rightarrow> string option" where
  "leading_space s =
     (case List.map_filter (\<lambda>r. strip_prefix r s) space_runes of
        [] \<Rightarrow> None
      | rest # others \<Rightarrow> Some rest)"

definition trailing_space :: "string \<Rightarrow> string option" where
  "trailing_space s =
     (case List.map_filter (\<lambda>r. strip_prefix (rev r) (rev s)) space_runes of
        [] \<Rightarrow> None
      | rest # others \<Rightarrow> Some (rev rest))"

lemma leading_space_shorter: "leading_space s = Some rest \<Longrightarrow> length rest < length s"
proof -
  assume "leading_space s = Some rest"
  then have "rest \<in> set (List.map_filter (\<lambda>r. strip_prefix r s) space_runes)"
    by (auto simp: leading_space_def split: list.splits)
  then obtain r where "r \<in> set space_runes" "strip_prefix r s = Some rest"
    by (auto simp: List.map_filter_def)
  then show ?thesis
    using strip_prefix_length [of r s rest] by (auto simp: space_runes_def)
qed

lemma trailing_space_shorter: "trailing_space s = Some rest \<Longrightarrow> length rest < length s"
proof -
  assume "trailing_space s = Some rest"
  then have "rev rest \<in> set (List.map_filter (\<lambda>r. strip_prefix (rev r) (rev s)) space_runes)"
    by (auto simp: trailing_space_def split: list.splits)
  then obtain r where "r \<in> set space_runes" "strip_prefix (rev r) (rev s) = Some (rev rest)"
    by (auto simp: List.map_filter_def)
  then show ?thesis
    using strip_prefix_length [of "rev r" "rev s" "rev rest"] by (auto simp: space_runes_def)
qed

function TrimLeftSpace :: "string \<Rightarrow> string" where
  "TrimLeftSpace s = (case leading_space s of None \<Rightarrow> s | Some rest \<Rightarrow> TrimLeftSpace rest)"
  by pat_completeness auto
termination
  by (relation "measure length") (auto dest: leading_space_shorter)

function TrimRightSpace :: "string \<Rightarrow> string" where
  "TrimRightSpace s = (case trailing_space s of None \<Rightarrow> s | Some rest \<Rightarrow> TrimRightSpace rest)"
  by pat_completeness auto
termination
  by (relation "measure length") (auto dest: trailing_space_shorter)

declare TrimLeftSpace.simps [simp del] TrimRightSpace.simps [simp del]

definition TrimSpace :: "string \<Rightarrow> string" where
  "TrimSpace s = TrimRightSpace (TrimLeftSpace s)"


subsection \<open>url.QueryEscape\<close>

definition unreserved :: "char \<Rightarrow> bool" where
  "unreserved c \<longleftrightarrow>
     (CHR ''a'' \<le> c \<and> c \<le> CHR ''z'') \<or> (CHR ''A'' \<le> c \<and> c \<le> CHR ''Z'') \<or>
     (CHR ''0'' \<le> c \<and> c \<le> CHR ''9'') \<or>
     c = CHR ''-'' \<or> c = CHR ''_'' \<or> c = CHR ''.'' \<or> c = CHR ''~''"

definition hex_digit :: "nat \<Rightarrow> char" where
  "hex_digit n = ''0123456789ABCDEF'' ! n"

definition escape_byte :: "char \<Rightarrow> string" where
  "escape_byte c =
     (if unreserved c then [c]
      else if c = CHR '' '' then ''+''
      else [CHR ''%'', hex_digit (of_char c div 16), hex_digit (of_char c mod 16)])"

definition QueryEscape :: "string \<Rightarrow> string" where
  "QueryEscape s = concat (map escape_byte s)"

subsection \<open>utf8.ValidString\<close>

definition byte_in :: "char \<Rightarrow> nat \<Rightarrow> nat \<Rightarrow> bool" where
  "byte_in c lo hi \<longleftrightarrow> lo \<le> of_char c \<and> (of_char c :: nat) \<le> hi"

fun ValidString :: "string \<Rightarrow> bool" where
  "ValidString [] = True"
| "ValidString (c # cs) =
     (if byte_in c 0x00 0x7F then ValidString cs
      else if byte_in c 0xC2 0xDF then
        (case cs of c1 # r \<Rightarrow> byte_in c1 0x80 0xBF \<and> ValidString r | _ \<Rightarrow> False)
      else if byte_in c 0xE0 0xEF then
        (case cs of
           c1 # c2 # r \<Rightarrow>
             byte_in c1 (if c = CHR 0xE0 then 0xA0 else 0x80) (if c = CHR 0xED then 0x9F else 0xBF)
             \<and> byte_in c2 0x80 0xBF \<and> ValidString r
         | _ \<Rightarrow> False)
      else if byte_in c 0xF0 0xF4 then
        (case cs of
           c1 # c2 # c3 # r \<Rightarrow>
             byte_in c1 (if c = CHR 0xF0 then 0x90 else 0x80) (if c = CHR 0xF4 then 0x8F else 0xBF)
             \<and> byte_in c2 0x80 0xBF \<and> byte_in c3 0x80 0xBF \<and> ValidString r
         | _ \<Rightarrow> False)
      else False)"

subsection \<open>fixLineEndings and fixNewLines\<close>

lemma Replace_Nil: "Replace [] old new = []"
  by (cases old) (simp_all add: Replace.simps)

lemma Replace_skip:
  "old \<noteq> [] \<Longrightarrow> strip_prefix old (c # cs) = None
     \<Longrightarrow> Replace (c # cs) old new = c # Replace cs old new"
  by (simp add: Replace.simps [of "c # cs"])

lemma Replace_hit:
  "old \<noteq> [] \<Longrightarrow> strip_prefix old s = Some rest
     \<Longrightarrow> Replace s old new = new @ Replace rest old new"
  by (simp add: Replace.simps [of s])

lemma Replace_length_le:
  "length new \<le> length old \<Longrightarrow> length (Replace s old new) \<le> length s"
proof (induction s old new rule: Replace.induct)
  case (1 s old new)
  show ?case
  proof (cases "old = []")
    case True
    then show ?thesis by (simp add: Replace.simps)
  next
    case False
    show ?thesis
    proof (cases "strip_prefix old s")
      case None
      then show ?thesis
        using False 1 by (cases s) (auto simp: Replace_Nil Replace_skip)
    next
      case (Some rest)
      then show ?thesis
        using False 1 strip_prefix_length [OF Some] by (auto simp: Replace_hit)
    qed
  qed
qed

lemma Replace_length_less:
  "Contains s old \<Longrightarrow> old \<noteq> [] \<Longrightarrow> length new < length old
     \<Longrightarrow> length (Replace s old new) < length s"
proof (induction s old new rule: Replace.induct)
  case (1 s old new)
  show ?case
  proof (cases "strip_prefix old s")
    case None
    then obtain c cs where s: "s = c # cs" and "Contains cs old"
      using "1.prems" by (cases s) auto
    then show ?thesis
      using None 1 by (auto simp: Replace_skip)
  next
    case (Some rest)
    have "length (Replace rest old new) \<le> length rest"
      using "1.prems" by (intro Replace_length_le) simp
    then show ?thesis
      using Some "1.prems" strip_prefix_length [OF Some] by (auto simp: Replace_hit)
  qed
qed

text \<open>The loop \<open>for strings.Contains(s, " \n") { s = strings.Replace(s, " \n", "\n", -1) }\<close>.\<close>

function strip_spaces_before_newlines :: "string \<Rightarrow> string" where
  "strip_spaces_before_newlines s =
     (if Contains s '' \<newline>''
      then strip_spaces_before_newlines (Replace s '' \<newline>'' ''\<newline>'')
      else s)"
  by pat_completeness auto
termination
  by (relation "measure length") (auto intro: Replace_length_less)

text \<open>The loop \<open>for strings.HasSuffix(s, "\n\n") { s = s[:len(s)-1] }\<close>.\<close>

function strip_blank_lines_at_end :: "string \<Rightarrow> string" where
  "strip_blank_lines_at_end s =
     (if HasSuffix s ''\<newline>\<newline>''
      then strip_blank_lines_at_end (take (length s - 1) s)
      else s)"
  by pat_completeness auto
termination
  by (relation "measure length") (auto simp: HasSuffix_def dest: strip_prefix_length)

declare strip_spaces_before_newlines.simps [simp del] strip_blank_lines_at_end.simps [simp del]

definition fixLineEndings :: "string \<Rightarrow> string" where
  "fixLineEndings s =
     (let s = Replace s [CHR 0x0D, CHR 0x0A] ''\<newline>'' @ ''\<newline>'';
          s = strip_spaces_before_newlines s;
          s = strip_blank_lines_at_end s
      in if s = ''\<newline>'' then [] else s)"

definition fixNewLines :: "string \<Rightarrow> string" where
  "fixNewLines s =
     (let s = Replace s [CHR 0x0D, CHR 0x0A] ''\<newline>'' @ ''\<newline>'';
          s = strip_blank_lines_at_end s
      in if s = ''\<newline>'' then [] else s)"


subsection \<open>BuildInstructions\<close>

text \<open>
  The instruction builder calls three libraries: the Markdown renderer, the HTML parser
  and renderer, and base64. They are parameters. \<open>Parse\<close> returns an error, or a
  document that may be \<open>nil\<close>; \<open>Render\<close> returns the text or fails. A node carries its
  type, its data, its attributes (key and value) and its children in order.
\<close>

datatype NodeType = ErrorNode | TextNode | DocumentNode | ElementNode | CommentNode | DoctypeNode

datatype html_Node = Node NodeType string "(string \<times> string) list" "html_Node list"

datatype parse_result = ParseFailed | Parsed "html_Node option"

record libraries =
  Markdown :: "string \<Rightarrow> string"
  Parse :: "string \<Rightarrow> parse_result"
  Render :: "html_Node \<Rightarrow> string option"
  EncodeToString :: "string \<Rightarrow> string"

datatype build_error =
    NoDocumentation
  | NotValidUTF8
  | ParseError
  | NilDocument
  | UnknownImageType string
  | ImageNotFound string
  | RenderError

text \<open>The \<open>switch\<close> on the suffix of the image name.\<close>

definition image_mime :: "string \<Rightarrow> string option" where
  "image_mime val =
     (if HasSuffix val ''.gif'' then Some ''image/gif''
      else if HasSuffix val ''.png'' then Some ''image/png''
      else if HasSuffix val ''.jpg'' then Some ''image/jpeg''
      else if HasSuffix val ''.jpeg'' then Some ''image/jpeg''
      else if HasSuffix val ''.svg'' then Some ''image/svg+xml''
      else None)"

text \<open>The loop over the attributes of an \<open>img\<close> element.\<close>

fun inline_attrs ::
  "(string \<Rightarrow> string) \<Rightarrow> file_map \<Rightarrow> (string \<times> string) list
     \<Rightarrow> build_error + (string \<times> string) list" where
  "inline_attrs encode fs [] = Inr []"
| "inline_attrs encode fs ((key, val) # rest) =
     (if key = ''src'' then
        (case map_of fs (''_doc/'' @ val) of
           Some contents \<Rightarrow>
             (case image_mime val of
                None \<Rightarrow> Inl (UnknownImageType val)
              | Some mime \<Rightarrow>
                  (case inline_attrs encode fs rest of
                     Inl err \<Rightarrow> Inl err
                   | Inr rest' \<Rightarrow>
                       Inr ((key, ''data:'' @ mime @ '';base64,'' @ encode contents) # rest')))
         | None \<Rightarrow> Inl (ImageNotFound val))
      else (case inline_attrs encode fs rest of
              Inl err \<Rightarrow> Inl err
            | Inr rest' \<Rightarrow> Inr ((key, val) # rest')))"

text \<open>The closure \<open>walk\<close> of \<open>BuildInstructions\<close>: the node first, then its children.\<close>

fun walk_images ::
  "(string \<Rightarrow> string) \<Rightarrow> file_map \<Rightarrow> html_Node \<Rightarrow> build_error + html_Node"
  and walk_children ::
  "(string \<Rightarrow> string) \<Rightarrow> file_map \<Rightarrow> html_Node list \<Rightarrow> build_error + html_Node list"
where
  "walk_images encode fs (Node ty data attr children) =
     (case (if ty = ElementNode \<and> data = ''img'' then inline_attrs encode fs attr
            else Inr attr) of
        Inl err \<Rightarrow> Inl err
      | Inr attr' \<Rightarrow>
          (case walk_children encode fs children of
             Inl err \<Rightarrow> Inl err
           | Inr children' \<Rightarrow> Inr (Node ty data attr' children')))"
| "walk_children encode fs [] = Inr []"
| "walk_children encode fs (c # cs) =
     (case walk_images encode fs c of
        Inl err \<Rightarrow> Inl err
      | Inr c' \<Rightarrow>
          (case walk_children encode fs cs of
             Inl err \<Rightarrow> Inl err
           | Inr cs' \<Rightarrow> Inr (c' # cs')))"

text \<open>
  \<open>BuildInstructions\<close>; the map \<open>used\<close> only feeds log lines and is left out.
\<close>

definition BuildInstructions :: "libraries \<Rightarrow> ProblemStep \<Rightarrow> build_error + string" where
  "BuildInstructions lib step =
     (case (case map_of (Files step) ''_doc/index.html'' of
              Some data \<Rightarrow> Some data
            | None \<Rightarrow>
                (case map_of (Files step) ''_doc/index.md'' of
                   Some data \<Rightarrow> Some (Markdown lib data)
                 | None \<Rightarrow> None)) of
        None \<Rightarrow> Inl NoDocumentation
      | Some justHTML \<Rightarrow>
          if \<not> ValidString justHTML then Inl NotValidUTF8
          else
            (case Parse lib justHTML of
               ParseFailed \<Rightarrow> Inl ParseError
             | Parsed None \<Rightarrow> Inl NilDocument
             | Parsed (Some doc) \<Rightarrow>
                 (case walk_images (EncodeToString lib) (Files step) doc of
                    Inl err \<Rightarrow> Inl err
                  | Inr doc' \<Rightarrow>
                      (case Render lib doc' of
                         None \<Rightarrow> Inl RenderError
                       | Some text \<Rightarrow> Inr text))))"

subsection \<open>ProblemStep.Normalize\<close>

datatype step_error = MissingNote int | InstructionsError int build_error

definition ProblemStepDirectoryWhitelist :: "string \<Rightarrow> bool" where
  "ProblemStepDirectoryWhitelist dir \<longleftrightarrow> dir = ''in'' \<or> dir = ''out'' \<or> dir = ''_doc''"

text \<open>The body of the loop over \<open>step.Files\<close>: one entry of \<open>clean\<close>.\<close>

definition clean_file :: "string \<times> string \<Rightarrow> string \<times> string" where
  "clean_file entry =
     (case entry of (name, contents) \<Rightarrow>
        (let parts = Split name CHR ''/'' in
         if (length parts < 2 \<or> \<not> ProblemStepDirectoryWhitelist (hd parts))
              \<and> ValidString contents
         then (name, fixLineEndings contents)
         else if ValidString contents then (name, fixNewLines contents)
         else (name, contents)))"

text \<open>
  \<open>step.Normalize(n)\<close>: the error it returns (\<open>None\<close> is \<open>nil\<close>) and the step as it
  leaves it.
\<close>

definition ProblemStep_Normalize ::
  "libraries \<Rightarrow> int \<Rightarrow> ProblemStep \<Rightarrow> step_error option \<times> ProblemStep" where
  "ProblemStep_Normalize lib n step =
     (let step = step\<lparr>Step := n, ProblemStep.Note := TrimSpace (ProblemStep.Note step)\<rparr> in
      if ProblemStep.Note step = [] then (Some (MissingNote (n + 1)), step)
      else
        (case BuildInstructions lib step of
           Inl err \<Rightarrow> (Some (InstructionsError (n + 1) err), step)
         | Inr instructions \<Rightarrow>
             (None,
              step\<lparr>Instructions := instructions,
                   Weight := (if Weight step \<le> 0 then 1 else Weight step),
                   Files := map clean_file (Files step)\<rparr>)))"

subsection \<open>Problem.Normalize\<close>

definition BeginningOfTime :: time where
  "BeginningOfTime = 1451606400 * 1000000000"

datatype problem_error =
    UniqueEmpty
  | UniqueNotURLFriendly
  | NoteEmpty
  | NoSteps
  | CreatedAtInvalid
  | UpdatedAtInvalid

text \<open>
  The loop \<open>for n, step := range steps { step.Normalize(int64(n) + 1) }\<close>: every step is
  normalized in place and the error each call returns is dropped.
\<close>

fun normalize_steps :: "libraries \<Rightarrow> nat \<Rightarrow> ProblemStep list \<Rightarrow> ProblemStep list" where
  "normalize_steps lib n [] = []"
| "normalize_steps lib n (step # steps) =
     snd (ProblemStep_Normalize lib (int n + 1) step) # normalize_steps lib (Suc n) steps"

text \<open>
  \<open>problem.Normalize(now, steps)\<close>: the error it returns (\<open>None\<close> is \<open>nil\<close>), and the
  problem and the steps as it leaves them.
\<close>

definition Problem_Normalize ::
  "libraries \<Rightarrow> time \<Rightarrow> Problem \<Rightarrow> ProblemStep list
     \<Rightarrow> problem_error option \<times> Problem \<times> ProblemStep list" where
  "Problem_Normalize lib now problem steps =
     (let problem = problem\<lparr>Unique := TrimSpace (Unique problem)\<rparr> in
      if Unique problem = [] then (Some UniqueEmpty, problem, steps)
      else if QueryEscape (Unique problem) \<noteq> Unique problem
      then (Some UniqueNotURLFriendly, problem, steps)
      else
     (let problem = problem\<lparr>Problem.Note := TrimSpace (Problem.Note problem)\<rparr> in
      if Problem.Note problem = [] then (Some NoteEmpty, problem, steps)
      else
     (let problem = problem\<lparr>Tags := sort (map TrimSpace (Tags problem))\<rparr>;
          problem = problem\<lparr>Options := map TrimSpace (Options problem)\<rparr> in
      if length steps = 0 then (Some NoSteps, problem, steps)
      else
     (let steps = normalize_steps lib 0 steps in
      if Problem.CreatedAt problem < BeginningOfTime \<or> Problem.CreatedAt problem > now
      then (Some CreatedAtInvalid, problem, steps)
      else if Problem.UpdatedAt problem < Problem.CreatedAt problem
                \<or> Problem.UpdatedAt problem > now
      then (Some UpdatedAtInvalid, problem, steps)
      else (None, problem, steps)))))"

text \<open>The timestamps \<open>Problem.Normalize\<close> accepts.\<close>

definition timestamps_ok :: "time \<Rightarrow> Problem \<Rightarrow> bool" where
  "timestamps_ok now problem \<longleftrightarrow>
     BeginningOfTime \<le> Problem.CreatedAt problem \<and> Problem.CreatedAt problem \<le> now \<and>
     Problem.CreatedAt problem \<le> Problem.UpdatedAt problem \<and> Problem.UpdatedAt problem \<le> now"

text \<open>Libraries for the examples: every call fails or returns its argument.\<close>

definition example_libraries :: libraries where
  "example_libraries =
     \<lparr>Markdown = (\<lambda>text. text), Parse = (\<lambda>text. ParseFailed), Render = (\<lambda>doc. None),
      EncodeToString = (\<lambda>data. data)\<rparr>"

subsection \<open>Formatting integers and times\<close>

definition digit_char :: "nat \<Rightarrow> char" where
  "digit_char n = ''0123456789'' ! n"

function digits :: "nat \<Rightarrow> string" where
  "digits n = (if n < 10 then [digit_char n] else digits (n div 10) @ [digit_char (n mod 10)])"
  by pat_completeness auto
termination
  by (relation "measure id") auto

declare digits.simps [simp del]

text \<open>\<open>strconv.FormatInt(n, 10)\<close>, which is also the verb \<open>%d\<close>.\<close>

definition FormatInt :: "int \<Rightarrow> string" where
  "FormatInt n = (if n < 0 then CHR ''-'' # digits (nat (- n)) else digits (nat n))"





text \<open>The characters \<open>FormatInt\<close> writes after the sign.\<close>

definition is_digit :: "char \<Rightarrow> bool" where
  "is_digit c \<longleftrightarrow> c \<in> set ''0123456789''"

subsection \<open>ComputeSignature\<close>

text \<open>
  \<open>url.Values\<close> is a \<open>map[string][]string\<close>: an association list with distinct keys.
  Reading a key that is absent gives the empty slice; \<open>v.Add(key, value)\<close> appends to
  the slice of the key; \<open>v[key] = values\<close> replaces it.
\<close>

type_synonym Values = "(string \<times> string list) list"

definition Get :: "Values \<Rightarrow> string \<Rightarrow> string list" where
  "Get v key = (case map_of v key of None \<Rightarrow> [] | Some values \<Rightarrow> values)"



text \<open>The keys \<open>step-%d-note\<close>, \<open>step-%d-weight\<close> and \<open>step-%d-file-%s\<close>.\<close>

definition note_key :: "int \<Rightarrow> string" where
  "note_key n = ''step-'' @ FormatInt n @ ''-note''"

definition weight_key :: "int \<Rightarrow> string" where
  "weight_key n = ''step-'' @ FormatInt n @ ''-weight''"

definition file_key :: "int \<Rightarrow> string \<Rightarrow> string" where
  "file_key n name = ''step-'' @ FormatInt n @ ''-file-'' @ name"




text \<open>
  Modelled from the spec: the helper \<open>encode\<close> is not among the sources. The
  specification asks for the URL query-string encoding of the multi-map, with every
  reserved character percent-escaped, stable and injective: the keys in sorted order, for
  each key its values in order as \<open>key=value\<close> with both sides escaped, joined by \<open>&\<close>.
\<close>

fun join_amp :: "string list \<Rightarrow> string" where
  "join_amp [] = []"
| "join_amp [x] = x"
| "join_amp (x # y # ys) = x @ ''&'' @ join_amp (y # ys)"

definition encode_pair :: "string \<times> string \<Rightarrow> string" where
  "encode_pair kv = QueryEscape (fst kv) @ ''='' @ QueryEscape (snd kv)"

definition pairs :: "Values \<Rightarrow> (string \<times> string) list" where
  "pairs v = concat (map (\<lambda>key. map (Pair key) (Get v key)) (sort (map fst v)))"

definition encode :: "Values \<Rightarrow> string" where
  "encode v = join_amp (map encode_pair (pairs v))"









section \<open>codegrinder/commits.go: the commit session handler\<close>

text \<open>
  The declarations of \<open>ReportCard\<close> and \<open>EventMessage\<close> are not part of the sources
  at hand; the handler only tests the pointer and the length, so both are type parameters.
  \<open>ReportCard\<close> is a pointer (\<open>None\<close> is \<open>nil\<close>), \<open>Transcript\<close> a slice of
  pointers. \<open>Score\<close> is a \<open>float64\<close> the handler never touches.
\<close>

record ('rc, 'ev) Commit =
  ID :: int
  AssignmentID :: int
  ProblemStepNumber :: int
  UserID :: int
  Action :: string
  Closed :: bool
  Comment :: string
  Score :: real
  ReportCard :: "'rc option"
  Submission :: file_map
  Transcript :: "'ev option list"
  CreatedAt :: time
  UpdatedAt :: time

definition transcriptEventCountLimit :: nat where
  "transcriptEventCountLimit = 500"

definition transcriptDataLimit :: nat where
  "transcriptDataLimit = 100000"

text \<open>Durations are nanoseconds in an \<open>int64\<close>; \<open>openCommitTimeout\<close> is 20 minutes.\<close>

definition openCommitTimeout :: int where
  "openCommitTimeout = 20 * (60 * 1000000000)"

definition maxDuration :: int where
  "maxDuration = 2 ^ 63 - 1"

definition minDuration :: int where
  "minDuration = - (2 ^ 63)"

text \<open>
  \<open>t.Sub(u)\<close>: the difference of the instants, or the largest (smallest) duration when
  the difference does not fit.
\<close>

definition Sub :: "time \<Rightarrow> time \<Rightarrow> int" where
  "Sub t u =
     (if t - u > maxDuration then maxDuration
      else if t - u < minDuration then minDuration
      else t - u)"

subsection \<open>The transaction\<close>

text \<open>
  The handler reads and writes two tables through the transaction. Of an assignment
  row only \<open>id\<close> and \<open>user_id\<close> are read. The rows of \<open>commits\<close> are kept in table
  order. Every database call of the handler can fail for a reason of the database's own;
  \<open>db_faults\<close> says which of the four calls does.
\<close>

record ('rc, 'ev) tx =
  assignments :: "(int \<times> int) list"
  commits :: "('rc, 'ev) Commit list"

record db_faults =
  assignment_query_fails :: bool
  open_commit_query_fails :: bool
  update_fails :: bool
  save_fails :: bool

definition no_faults :: db_faults where
  "no_faults =
     \<lparr>assignment_query_fails = False, open_commit_query_fails = False,
      update_fails = False, save_fails = False\<rparr>"

datatype db_error = ErrNoRows | ErrOther

datatype http_status = StatusBadRequest | StatusNotFound | StatusInternalServerError

text \<open>\<open>SELECT * FROM assignments WHERE id = $1 AND user_id = $2\<close>\<close>

definition query_assignment ::
  "db_faults \<Rightarrow> ('rc, 'ev) tx \<Rightarrow> int \<Rightarrow> int \<Rightarrow> db_error + (int \<times> int)" where
  "query_assignment faults t assignmentID userID =
     (if assignment_query_fails faults then Inl ErrOther
      else (case find (\<lambda>a. fst a = assignmentID \<and> snd a = userID) (assignments t) of
              None \<Rightarrow> Inl ErrNoRows
            | Some a \<Rightarrow> Inr a))"

text \<open>\<open>SELECT * FROM commits WHERE NOT closed AND assignment_id = $1 LIMIT 1\<close>\<close>

definition query_open_commit ::
  "db_faults \<Rightarrow> ('rc, 'ev) tx \<Rightarrow> int \<Rightarrow> db_error + ('rc, 'ev) Commit" where
  "query_open_commit faults t assignmentID =
     (if open_commit_query_fails faults then Inl ErrOther
      else (case find (\<lambda>c. \<not> Closed c \<and> AssignmentID c = assignmentID) (commits t) of
              None \<Rightarrow> Inl ErrNoRows
            | Some c \<Rightarrow> Inr c))"

text \<open>
  \<open>meddler.Update\<close>: \<open>UPDATE commits SET ... WHERE id = $pk\<close>, every column taken from
  the struct.
\<close>

definition update_row ::
  "('rc, 'ev) Commit \<Rightarrow> ('rc, 'ev) Commit list \<Rightarrow> ('rc, 'ev) Commit list" where
  "update_row c rows = map (\<lambda>r. if Commit.ID r = Commit.ID c then c else r) rows"

definition Update ::
  "db_faults \<Rightarrow> ('rc, 'ev) tx \<Rightarrow> ('rc, 'ev) Commit \<Rightarrow> db_error + ('rc, 'ev) tx" where
  "Update faults t c =
     (if update_fails faults then Inl ErrOther
      else Inr (t\<lparr>commits := update_row c (commits t)\<rparr>))"

text \<open>
  The key the database gives an inserted row: a serial key, positive and larger than
  every key of the table.
\<close>

definition next_id :: "('rc, 'ev) Commit list \<Rightarrow> int" where
  "next_id rows = fold max (map Commit.ID rows) 0 + 1"

text \<open>
  \<open>meddler.Save\<close>: an insert when the primary key of the struct is zero (the struct
  then receives the new key), an update otherwise. It returns the struct as well.
\<close>

definition Save ::
  "db_faults \<Rightarrow> ('rc, 'ev) tx \<Rightarrow> ('rc, 'ev) Commit
     \<Rightarrow> db_error + (('rc, 'ev) tx \<times> ('rc, 'ev) Commit)" where
  "Save faults t c =
     (if save_fails faults then Inl ErrOther
      else if Commit.ID c = 0 then
        (let c' = c\<lparr>Commit.ID := next_id (commits t)\<rparr>
         in Inr (t\<lparr>commits := commits t @ [c']\<rparr>, c'))
      else Inr (t\<lparr>commits := update_row c (commits t)\<rparr>, c))"

subsection \<open>PostUserAssignmentCommit\<close>

text \<open>
  The block \<open>close the old commit?\<close>: the transaction and \<open>openCommit\<close> after it, or
  the status of the error response.
\<close>

definition close_old_commit ::
  "db_faults \<Rightarrow> time \<Rightarrow> ('rc, 'ev) tx \<Rightarrow> ('rc, 'ev) Commit option \<Rightarrow> ('rc, 'ev) Commit
     \<Rightarrow> http_status + (('rc, 'ev) tx \<times> ('rc, 'ev) Commit option)" where
  "close_old_commit faults now t openCommit commit =
     (case openCommit of
        None \<Rightarrow> Inr (t, None)
      | Some oc \<Rightarrow>
          if Sub now (Commit.UpdatedAt oc) > openCommitTimeout
               \<or> ProblemStepNumber oc \<noteq> ProblemStepNumber commit
          then (case Update faults t (oc\<lparr>Closed := True, Commit.UpdatedAt := now\<rparr>) of
                  Inl err \<Rightarrow> Inl StatusInternalServerError
                | Inr t' \<Rightarrow> Inr (t', None))
          else Inr (t, Some oc))"

text \<open>
  The block \<open>update an existing commit?\<close> down to \<open>commit.UpdatedAt = now\<close>: the commit
  that is handed to \<open>meddler.Save\<close>.
\<close>

definition prepare_commit ::
  "time \<Rightarrow> int \<Rightarrow> int \<Rightarrow> ('rc, 'ev) Commit option \<Rightarrow> ('rc, 'ev) Commit
     \<Rightarrow> ('rc, 'ev) Commit" where
  "prepare_commit now assignmentID userID openCommit commit =
     (let commit = (case openCommit of
                      Some oc \<Rightarrow>
                        commit\<lparr>Commit.ID := Commit.ID oc, Commit.CreatedAt := Commit.CreatedAt oc\<rparr>
                    | None \<Rightarrow> commit\<lparr>Commit.ID := 0, Commit.CreatedAt := now\<rparr>);
          commit = commit\<lparr>AssignmentID := assignmentID, UserID := userID\<rparr>;
          commit = (if ReportCard commit \<noteq> None \<or> length (Transcript commit) > 0
                    then commit\<lparr>Closed := True\<rparr> else commit)
      in commit\<lparr>Commit.UpdatedAt := now\<rparr>)"

text \<open>
  The handler. \<open>assignment_id\<close> is the result of \<open>strconv.Atoi\<close> on the URL parameter
  (\<open>None\<close> when it does not parse), \<open>currentUser\<close> the \<open>ID\<close> of the current user. The
  result is the transaction as the handler leaves it and the response: the status of an
  error response, or the commit rendered as JSON with status 200.
\<close>

definition PostUserAssignmentCommit ::
  "db_faults \<Rightarrow> time \<Rightarrow> ('rc, 'ev) tx \<Rightarrow> int \<Rightarrow> int option \<Rightarrow> ('rc, 'ev) Commit
     \<Rightarrow> ('rc, 'ev) tx \<times> (http_status + ('rc, 'ev) Commit)" where
  "PostUserAssignmentCommit faults now t currentUser assignment_id commit =
     (case assignment_id of
        None \<Rightarrow> (t, Inl StatusBadRequest)
      | Some assignmentID \<Rightarrow>
     (case query_assignment faults t assignmentID currentUser of
        Inl ErrNoRows \<Rightarrow> (t, Inl StatusNotFound)
      | Inl ErrOther \<Rightarrow> (t, Inl StatusInternalServerError)
      | Inr assignment \<Rightarrow>
     if length (Submission commit) = 0 then (t, Inl StatusBadRequest)
     else
     (case query_open_commit faults t assignmentID of
        Inl ErrOther \<Rightarrow> (t, Inl StatusInternalServerError)
      | found \<Rightarrow>
     (case close_old_commit faults now t
             (case found of Inl err \<Rightarrow> None | Inr oc \<Rightarrow> Some oc) commit of
        Inl status \<Rightarrow> (t, Inl status)
      | Inr (t', openCommit) \<Rightarrow>
     (case Save faults t' (prepare_commit now assignmentID currentUser openCommit commit) of
        Inl err \<Rightarrow> (t', Inl StatusInternalServerError)
      | Inr (t'', saved) \<Rightarrow> (t'', Inr saved))))))"

text \<open>The open commits of an assignment, and the table's primary key constraint.\<close>

definition open_commits :: "('rc, 'ev) Commit list \<Rightarrow> int \<Rightarrow> ('rc, 'ev) Commit list" where
  "open_commits rows assignmentID =
     filter (\<lambda>c. \<not> Closed c \<and> AssignmentID c = assignmentID) rows"

definition primary_key_ok :: "('rc, 'ev) Commit list \<Rightarrow> bool" where
  "primary_key_ok rows \<longleftrightarrow> distinct (map Commit.ID rows) \<and> list_all (\<lambda>r. 0 < Commit.ID r) rows"

section \<open>grind: gathering the files of a commit\<close>

text \<open>
  The file system under the problem directory, as \<open>filepath.Walk\<close> sees it through
  \<open>os.Lstat\<close>: a regular file with its name and what \<open>ioutil.ReadFile\<close> returns
  (\<open>None\<close> when reading fails), a file that is neither regular nor a directory (a
  symbolic link, a device), a directory with its entries in lexical order, or a name
  whose \<open>Lstat\<close> fails. Directories are taken to be listable.
\<close>

datatype fs_node =
    RegularFile string "string option"
  | OtherFile string
  | Dir string "fs_node list"
  | Broken string

datatype walk_error = LstatError string | ReadError string

text \<open>What a \<open>WalkFunc\<close> returns: \<open>nil\<close>, \<open>filepath.SkipDir\<close> or another error.\<close>

datatype walk_result = Continue | SkipDir | Stop walk_error

fun IsDir :: "fs_node \<Rightarrow> bool" where
  "IsDir (Dir name entries) = True"
| "IsDir node = False"

fun Name :: "fs_node \<Rightarrow> string" where
  "Name (RegularFile name contents) = name"
| "Name (OtherFile name) = name"
| "Name (Dir name entries) = name"
| "Name (Broken name) = name"

text \<open>
  \<open>filepath.Walk\<close>, with the state the callback's closure mutates passed along. A path
  is the list of names from the root of the walk down to the node, so the root's is
  empty. The callback is called on a directory before its entries; when it returns
  \<open>SkipDir\<close> there the directory is not entered, when it returns \<open>SkipDir\<close> on a file the
  rest of the containing directory is skipped, and any other error ends the walk.
\<close>

fun walk ::
  "(string list \<Rightarrow> fs_node \<Rightarrow> 's \<Rightarrow> walk_result \<times> 's) \<Rightarrow> string list \<Rightarrow> fs_node \<Rightarrow> 's
     \<Rightarrow> walk_result \<times> 's"
  and walk_names ::
  "(string list \<Rightarrow> fs_node \<Rightarrow> 's \<Rightarrow> walk_result \<times> 's) \<Rightarrow> string list \<Rightarrow> fs_node list \<Rightarrow> 's
     \<Rightarrow> walk_result \<times> 's"
where
  "walk walkFn path (Dir name entries) s =
     (case walkFn path (Dir name entries) s of
        (Continue, s') \<Rightarrow> walk_names walkFn path entries s'
      | (err1, s') \<Rightarrow> (err1, s'))"
| "walk walkFn path node s = walkFn path node s"
| "walk_names walkFn path [] s = (Continue, s)"
| "walk_names walkFn path (Broken name # rest) s =
     (case walkFn (path @ [name]) (Broken name) s of
        (Stop err, s') \<Rightarrow> (Stop err, s')
      | (r, s') \<Rightarrow> walk_names walkFn path rest s')"
| "walk_names walkFn path (entry # rest) s =
     (case walk walkFn (path @ [Name entry]) entry s of
        (Continue, s') \<Rightarrow> walk_names walkFn path rest s'
      | (SkipDir, s') \<Rightarrow>
          if IsDir entry then walk_names walkFn path rest s' else (SkipDir, s')
      | (Stop err, s') \<Rightarrow> (Stop err, s'))"

text \<open>
  What the callback of \<open>gather\<close> builds: the map \<open>files\<close>, and the names it logs as
  skipped.
\<close>

record gathered =
  files :: file_map
  skipped :: "string list"

text \<open>
  The callback of \<open>gather\<close>. The constant \<open>perProblemSetDotFile\<close> is declared outside
  the sources at hand and is a parameter; \<open>Whitelist\<close> is \<open>info.Whitelist\<close>, a
  \<open>map[string]bool\<close> read from the metadata file. \<open>path == problemDir\<close> holds at the root
  of the walk only.
\<close>

definition walkFn ::
  "string \<Rightarrow> (string \<times> bool) list \<Rightarrow> string list \<Rightarrow> fs_node \<Rightarrow> gathered
     \<Rightarrow> walk_result \<times> gathered" where
  "walkFn perProblemSetDotFile Whitelist path stat g =
     (case stat of
        Broken name \<Rightarrow> (Stop (LstatError name), g)
      | _ \<Rightarrow>
     if path = [] then (Continue, g)
     else if IsDir stat then (SkipDir, g)
     else
     (case stat of
        RegularFile name contents \<Rightarrow>
          if name = perProblemSetDotFile then (Continue, g)
          else if map_of Whitelist name = Some True then
            (case contents of
               None \<Rightarrow> (Stop (ReadError name), g)
             | Some c \<Rightarrow> (Continue, g\<lparr>files := AList.update name c (files g)\<rparr>))
          else (Continue, g\<lparr>skipped := skipped g @ [name]\<rparr>)
      | _ \<Rightarrow> (Continue, g)))"

text \<open>
  The walk of \<open>gather\<close>: the error that makes it call \<open>log.Fatalf\<close>, or the files
  gathered and the names skipped with a warning.
\<close>

definition gather_files ::
  "string \<Rightarrow> (string \<times> bool) list \<Rightarrow> fs_node \<Rightarrow> walk_error + gathered" where
  "gather_files perProblemSetDotFile Whitelist problemDir =
     (case walk (walkFn perProblemSetDotFile Whitelist) [] problemDir
             \<lparr>files = [], skipped = []\<rparr> of
        (Stop err, g) \<Rightarrow> Inl err
      | (r, g) \<Rightarrow> Inr g)"

text \<open>
  For the statement: the regular files that are entries of a directory itself, by name,
  and those of them that can be read, with their contents; a name that is not the
  metadata file is listed when the whitelist maps it to \<open>true\<close>; an entry is readable
  unless its \<open>Lstat\<close> fails or it is a listed regular file that cannot be read.
\<close>

fun regular_names :: "fs_node list \<Rightarrow> string list" where
  "regular_names [] = []"
| "regular_names (RegularFile name contents # rest) = name # regular_names rest"
| "regular_names (entry # rest) = regular_names rest"

fun regular_files :: "fs_node list \<Rightarrow> (string \<times> string) list" where
  "regular_files [] = []"
| "regular_files (RegularFile name (Some c) # rest) = (name, c) # regular_files rest"
| "regular_files (entry # rest) = regular_files rest"

definition listed :: "string \<Rightarrow> (string \<times> bool) list \<Rightarrow> string \<Rightarrow> bool" where
  "listed perProblemSetDotFile Whitelist name \<longleftrightarrow>
     name \<noteq> perProblemSetDotFile \<and> map_of Whitelist name = Some True"

definition unlisted :: "string \<Rightarrow> (string \<times> bool) list \<Rightarrow> string \<Rightarrow> bool" where
  "unlisted perProblemSetDotFile Whitelist name \<longleftrightarrow>
     name \<noteq> perProblemSetDotFile \<and> map_of Whitelist name \<noteq> Some True"

fun readable :: "string \<Rightarrow> (string \<times> bool) list \<Rightarrow> fs_node \<Rightarrow> bool" where
  "readable perProblemSetDotFile Whitelist (Broken name) = False"
| "readable perProblemSetDotFile Whitelist (RegularFile name None) =
     (\<not> listed perProblemSetDotFile Whitelist name)"
| "readable perProblemSetDotFile Whitelist node = True"

text \<open>
  A problem directory for the examples: the metadata file, a whitelisted file, a file
  that is not whitelisted, and a subdirectory that holds a whitelisted file.
\<close>

definition example_dir :: fs_node where
  "example_dir =
     Dir ''hw1''
       [RegularFile ''.grind'' (Some ''{}''),
        RegularFile ''main.py'' (Some ''print(1)''),
        RegularFile ''scratch.txt'' (Some ''notes''),
        Dir ''tests'' [RegularFile ''util.py'' (Some ''x = 1'')]]"

definition example_whitelist :: "(string \<times> bool) list" where
  "example_whitelist = [(''main.py'', True), (''util.py'', True)]"

text \<open>
  A small transaction for the examples: user 3 has assignment 7 with one open commit at
  step 1, and submits at step 1.
\<close>

definition example_open_commit :: "(string, string) Commit" where
  "example_open_commit =
     \<lparr>Commit.ID = 1, AssignmentID = 7, ProblemStepNumber = 1, UserID = 3, Action = [],
      Closed = False, Comment = [], Score = 0, ReportCard = None,
      Submission = [(''main.py'', ''print(0)'')], Transcript = [],
      Commit.CreatedAt = 1000, Commit.UpdatedAt = 2000\<rparr>"

definition example_tx :: "(string, string) tx" where
  "example_tx = \<lparr>assignments = [(7, 3)], commits = [example_open_commit]\<rparr>"

definition example_submission :: "(string, string) Commit" where
  "example_submission =
     \<lparr>Commit.ID = 0, AssignmentID = 0, ProblemStepNumber = 1, UserID = 0, Action = ''save'',
      Closed = False, Comment = ''second try'', Score = 0, ReportCard = None,
      Submission = [(''main.py'', ''print(1)'')], Transcript = [],
      Commit.CreatedAt = 0, Commit.UpdatedAt = 0\<rparr>"

text \<open>
  The example of the specification: step 1 introduces \<open>main.py\<close>, step 2 introduces
  \<open>tests/test_main.py\<close>.
\<close>

definition example_problem :: Problem where
  "example_problem =
     \<lparr>Problem.ID = 1, Unique = ''example'', Problem.Note = ''an example'', ProblemType = ''python27unittest'',
      Tags = [], Options = [], Problem.CreatedAt = 1500000000000000000,
      Problem.UpdatedAt = 1500000000000000000\<rparr>"

definition example_step1 :: ProblemStep where
  "example_step1 =
     \<lparr>ProblemID = 1, Step = 1, ProblemStep.Note = ''first step'', Instructions = [], Weight = 1,
      Files = [(''main.py'', ''print(1)'')]\<rparr>"

definition example_step2 :: ProblemStep where
  "example_step2 =
     \<lparr>ProblemID = 1, Step = 2, ProblemStep.Note = ''second step'', Instructions = [], Weight = 1,
      Files = [(''tests/test_main.py'', ''import main'')]\<rparr>"

section \<open>Step whitelists\<close>

lemma Split_not_Nil: "Split s sep \<noteq> []"
  by (induction s) (auto split: list.splits)

lemma length_Split_one: "length (Split s sep) = 1 \<longleftrightarrow> sep \<notin> set s"
proof (induction s)
  case Nil
  show ?case by simp
next
  case (Cons c cs)
  show ?case
  proof (cases "c = sep")
    case True
    then show ?thesis using Split_not_Nil [of cs sep] by (cases "Split cs sep") auto
  next
    case False
    then show ?thesis using Cons Split_not_Nil [of cs sep]
      by (cases "Split cs sep") auto
  qed
qed

lemma add_root_files_eq:
  "add_root_files fs m = m \<union> {name \<in> fst ` set fs. CHR ''/'' \<notin> set name}"
proof (induction fs arbitrary: m)
  case Nil
  show ?case by simp
next
  case (Cons f fs)
  obtain name contents where f: "f = (name, contents)" by (cases f)
  show ?case
    using length_Split_one [of name "CHR ''/''"] by (auto simp: f Cons.IH)
qed

lemma whitelists_loop_length:
  "length (whitelists_loop steps lsts) = length lsts + length steps"
  by (induction steps arbitrary: lsts) auto

lemma whitelists_loop_prefix:
  "i < length lsts \<Longrightarrow> whitelists_loop steps lsts ! i = lsts ! i"
  by (induction steps arbitrary: lsts) (auto simp: nth_append)

lemma whitelists_loop_step:
  "i < length steps \<Longrightarrow>
   whitelists_loop steps lsts ! (length lsts + i) =
     (if length lsts + i = 0 then {} else whitelists_loop steps lsts ! (length lsts + i - 1))
       \<union> root_names (steps ! i)"
proof (induction steps arbitrary: lsts i)
  case Nil
  then show ?case by simp
next
  case (Cons step steps)
  let ?new = "add_root_files (Files step) (carry_forward lsts)"
  show ?case
  proof (cases i)
    case 0
    have here: "whitelists_loop (step # steps) lsts ! length lsts = ?new"
      using whitelists_loop_prefix [of "length lsts" "lsts @ [?new]" steps] by simp
    have before: "lsts \<noteq> [] \<Longrightarrow>
        whitelists_loop (step # steps) lsts ! (length lsts - 1) = lsts ! (length lsts - 1)"
      using whitelists_loop_prefix [of "length lsts - 1" "lsts @ [?new]" steps]
      by (simp add: nth_append)
    show ?thesis
      using 0 here before
      by (auto simp: add_root_files_eq carry_forward_def root_names_def)
  next
    case (Suc j)
    then have j: "j < length steps" using Cons.prems by simp
    from Cons.IH [OF j, of "lsts @ [?new]"] Suc show ?thesis by simp
  qed
qed

lemma GetStepWhitelists_length:
  "length (GetStepWhitelists problem steps) = length steps"
  by (simp add: GetStepWhitelists_def whitelists_loop_length)

text \<open>
  Claim C6. For every ordered list of steps, the whitelist computed for step \<open>i\<close> is the
  whitelist of the step before it (empty before the first step) together with the names of
  the files of step \<open>i\<close> that contain no path separator; so each whitelist contains the
  one before it. There is one whitelist per step.
\<close>

theorem GetStepWhitelists_cumulative:
  assumes "i < length steps"
  shows "length (GetStepWhitelists problem steps) = length steps \<and>
         GetStepWhitelists problem steps ! i =
           (if i = 0 then {} else GetStepWhitelists problem steps ! (i - 1))
             \<union> root_names (steps ! i) \<and>
         (0 < i \<longrightarrow>
            GetStepWhitelists problem steps ! (i - 1) \<subseteq> GetStepWhitelists problem steps ! i)"
proof -
  have step: "GetStepWhitelists problem steps ! i =
      (if i = 0 then {} else GetStepWhitelists problem steps ! (i - 1))
        \<union> root_names (steps ! i)"
    using whitelists_loop_step [OF assms, of "[]"] by (simp add: GetStepWhitelists_def)
  then have "0 < i \<longrightarrow>
      GetStepWhitelists problem steps ! (i - 1) \<subseteq> GetStepWhitelists problem steps ! i"
    by auto
  with step show ?thesis by (simp add: GetStepWhitelists_length)
qed

lemma example_step_files:
  "Files example_step1 = [(''main.py'', ''print(1)'')]"
  "Files example_step2 = [(''tests/test_main.py'', ''import main'')]"
  by (simp_all add: example_step1_def example_step2_def)

lemma example_root_names:
  "root_names example_step1 = {''main.py''}"
  "root_names example_step2 = {}"
  by (auto simp: root_names_def example_step_files)

theorem GetStepWhitelists_cumulative_witness:
  "(1::nat) < length [example_step1, example_step2, example_step1] \<and>
   length (GetStepWhitelists example_problem [example_step1, example_step2, example_step1]) = 3 \<and>
   GetStepWhitelists example_problem [example_step1, example_step2, example_step1] ! 1 =
     GetStepWhitelists example_problem [example_step1, example_step2, example_step1] ! 0 \<and>
   GetStepWhitelists example_problem [example_step1, example_step2, example_step1] ! 0
     \<subseteq> GetStepWhitelists example_problem [example_step1, example_step2, example_step1] ! 1"
  using GetStepWhitelists_cumulative
          [of 1 "[example_step1, example_step2, example_step1]" example_problem]
  by (simp add: example_root_names)

text \<open>
  Claim C7, as the code has it. For a problem whose step 1 introduces \<open>main.py\<close> and
  whose step 2 introduces \<open>tests/test_main.py\<close>, the whitelist at step 1 is exactly
  \<open>{main.py}\<close> and the whitelist at step 2 is exactly \<open>{main.py}\<close> again: the
  name of step 2 has a path separator, so it is not a root-level name and is not added.
\<close>

theorem GetStepWhitelists_example:
  assumes "Files s1 = [(''main.py'', c1)]"
    and "Files s2 = [(''tests/test_main.py'', c2)]"
  shows "GetStepWhitelists problem [s1, s2] = [{''main.py''}, {''main.py''}]"
  using assms by (simp add: GetStepWhitelists_def carry_forward_def)

theorem GetStepWhitelists_example_witness:
  "Files example_step1 = [(''main.py'', ''print(1)'')] \<and>
   Files example_step2 = [(''tests/test_main.py'', ''import main'')] \<and>
   GetStepWhitelists example_problem [example_step1, example_step2]
     = [{''main.py''}, {''main.py''}]"
  using GetStepWhitelists_example [of example_step1 "''print(1)''" example_step2 "''import main''"
          example_problem]
  by (simp add: example_step_files)

text \<open>
  Claim C7 as stated fails at the specification's own example: the whitelist computed
  at step 2 is not \<open>{main.py, tests/test_main.py}\<close>.
\<close>

theorem GetStepWhitelists_example_counterexample:
  "GetStepWhitelists example_problem [example_step1, example_step2] ! 1
     \<noteq> {''main.py'', ''tests/test_main.py''}"
  by (simp add: GetStepWhitelists_def carry_forward_def example_step_files)

section \<open>The commit session handler\<close>

lemma Sub_timeout: "Sub now u > openCommitTimeout \<longleftrightarrow> now - u > openCommitTimeout"
  by (simp add: Sub_def openCommitTimeout_def maxDuration_def minDuration_def)

lemma find_SomeD: "find P xs = Some x \<Longrightarrow> x \<in> set xs \<and> P x"
  by (induction xs) (auto split: if_splits)

lemma find_None_filter: "find P xs = None \<Longrightarrow> filter P xs = []"
  by (induction xs) (auto split: if_splits)

lemma fold_max_ge: "(a::int) \<le> fold max xs a"
  by (induction xs arbitrary: a) (auto intro: order_trans [OF max.cobounded2])

lemma fold_max_mem: "x \<in> set xs \<Longrightarrow> (x::int) \<le> fold max xs a"
proof (induction xs arbitrary: a)
  case Nil
  then show ?case by simp
next
  case (Cons y ys)
  show ?case
  proof (cases "x = y")
    case True
    have "x \<le> max y a" using True by simp
    also have "\<dots> \<le> fold max ys (max y a)" by (rule fold_max_ge)
    finally show ?thesis by simp
  next
    case False
    then show ?thesis using Cons by simp
  qed
qed

lemma next_id_pos: "0 < next_id rows"
  using fold_max_ge [of 0 "map Commit.ID rows"] by (simp add: next_id_def)

lemma next_id_fresh: "r \<in> set rows \<Longrightarrow> Commit.ID r < next_id rows"
  using fold_max_mem [of "Commit.ID r" "map Commit.ID rows" 0] by (auto simp: next_id_def)

lemma update_row_ids: "map Commit.ID (update_row c rows) = map Commit.ID rows"
  by (induction rows) (auto simp: update_row_def)

lemma update_row_mem:
  "r \<in> set rows \<Longrightarrow> Commit.ID r = Commit.ID c \<Longrightarrow> c \<in> set (update_row c rows)"
  by (induction rows) (auto simp: update_row_def)

lemma primary_key_ok_update:
  "primary_key_ok rows \<Longrightarrow> r \<in> set rows \<Longrightarrow> Commit.ID r = Commit.ID c
     \<Longrightarrow> primary_key_ok (update_row c rows)"
proof -
  assume ok: "primary_key_ok rows" and r: "r \<in> set rows" and eq: "Commit.ID r = Commit.ID c"
  have "0 < Commit.ID c" using ok r eq by (auto simp: primary_key_ok_def list_all_iff)
  then have "list_all (\<lambda>r. 0 < Commit.ID r) (update_row c rows)"
    using ok by (auto simp: primary_key_ok_def list_all_iff update_row_def)
  then show ?thesis using ok by (simp add: primary_key_ok_def update_row_ids)
qed

lemma primary_key_ok_insert:
  "primary_key_ok rows \<Longrightarrow> primary_key_ok (rows @ [c\<lparr>Commit.ID := next_id rows\<rparr>])"
proof -
  assume ok: "primary_key_ok rows"
  have "next_id rows \<notin> Commit.ID ` set rows"
    using next_id_fresh [of _ rows] by force
  then show ?thesis
    using ok next_id_pos [of rows] by (simp add: primary_key_ok_def)
qed

lemma handler_after_checks:
  assumes "assignment_id = Some assignmentID"
    and "query_assignment faults t assignmentID currentUser = Inr a"
    and "Submission commit \<noteq> []"
    and "query_open_commit faults t assignmentID \<noteq> Inl ErrOther"
  shows "PostUserAssignmentCommit faults now t currentUser assignment_id commit =
     (case close_old_commit faults now t
             (case query_open_commit faults t assignmentID of
                Inl err \<Rightarrow> None | Inr oc \<Rightarrow> Some oc) commit of
        Inl status \<Rightarrow> (t, Inl status)
      | Inr (t', openCommit) \<Rightarrow>
     (case Save faults t' (prepare_commit now assignmentID currentUser openCommit commit) of
        Inl err \<Rightarrow> (t', Inl StatusInternalServerError)
      | Inr (t'', saved) \<Rightarrow> (t'', Inr saved)))"
  using assms
  by (simp add: PostUserAssignmentCommit_def split: sum.splits db_error.splits)

lemma query_open_commit_InrD:
  "query_open_commit faults t assignmentID = Inr oc \<Longrightarrow>
     oc \<in> set (commits t) \<and> \<not> Closed oc \<and> AssignmentID oc = assignmentID"
  by (auto simp: query_open_commit_def split: if_splits option.splits dest: find_SomeD)

text \<open>
  Claim C1. A submission that passes the handler's checks (the assignment exists for the
  user, the submission has files, the database calls succeed) and finds an open commit
  for the assignment that was last updated more than 20 minutes ago, or that is at another
  step: the old commit is written back with \<open>Closed = true\<close> and \<open>UpdatedAt = now\<close>,
  and the incoming commit is handed to \<open>Save\<close> with \<open>ID = 0\<close> and
  \<open>CreatedAt = now\<close>, so it is inserted as a new row under a key no row had.
\<close>

theorem stale_commit_closed_and_recreated:
  assumes "assignment_id = Some assignmentID"
    and "query_assignment faults t assignmentID currentUser = Inr a"
    and "Submission commit \<noteq> []"
    and "query_open_commit faults t assignmentID = Inr oc"
    and "now - Commit.UpdatedAt oc > openCommitTimeout
           \<or> ProblemStepNumber oc \<noteq> ProblemStepNumber commit"
    and "\<not> update_fails faults" and "\<not> save_fails faults"
  shows "let closed = oc\<lparr>Closed := True, Commit.UpdatedAt := now\<rparr>;
             rows = update_row closed (commits t);
             fresh = prepare_commit now assignmentID currentUser None commit;
             saved = fresh\<lparr>Commit.ID := next_id rows\<rparr>
         in PostUserAssignmentCommit faults now t currentUser assignment_id commit
              = (t\<lparr>commits := rows @ [saved]\<rparr>, Inr saved) \<and>
            closed \<in> set rows \<and>
            Commit.ID fresh = 0 \<and> Commit.CreatedAt fresh = now \<and>
            Submission fresh = Submission commit \<and>
            Commit.ID saved \<notin> Commit.ID ` set (commits t)"
proof -
  let ?closed = "oc\<lparr>Closed := True, Commit.UpdatedAt := now\<rparr>"
  let ?rows = "update_row ?closed (commits t)"
  let ?fresh = "prepare_commit now assignmentID currentUser None commit"
  have mem: "oc \<in> set (commits t)"
    using query_open_commit_InrD [OF assms(4)] by simp
  then have closed: "?closed \<in> set ?rows"
    by (rule update_row_mem) simp
  have close: "close_old_commit faults now t (Some oc) commit
      = Inr (t\<lparr>commits := ?rows\<rparr>, None)"
    using assms(5,6) by (auto simp: close_old_commit_def Sub_timeout Update_def)
  have fresh: "Commit.ID ?fresh = 0" "Commit.CreatedAt ?fresh = now"
      "Submission ?fresh = Submission commit"
    by (simp_all add: prepare_commit_def Let_def)
  have save: "Save faults (t\<lparr>commits := ?rows\<rparr>) ?fresh
      = Inr (t\<lparr>commits := ?rows @ [?fresh\<lparr>Commit.ID := next_id ?rows\<rparr>]\<rparr>,
             ?fresh\<lparr>Commit.ID := next_id ?rows\<rparr>)"
    using assms(7) fresh(1) by (simp add: Save_def Let_def)
  have run: "PostUserAssignmentCommit faults now t currentUser assignment_id commit
      = (t\<lparr>commits := ?rows @ [?fresh\<lparr>Commit.ID := next_id ?rows\<rparr>]\<rparr>,
         Inr (?fresh\<lparr>Commit.ID := next_id ?rows\<rparr>))"
    using handler_after_checks [OF assms(1,2,3), of now] assms(4) close save by simp
  have "next_id ?rows \<notin> Commit.ID ` set ?rows"
    using next_id_fresh [of _ ?rows] by force
  then have new: "next_id ?rows \<notin> Commit.ID ` set (commits t)"
    using update_row_ids [of ?closed "commits t"] by (metis set_map)
  show ?thesis
    using run closed fresh new by (simp add: Let_def)
qed

text \<open>
  Claim C2. A submission that passes the handler's checks and finds an open commit for the
  assignment that is neither idle beyond the timeout nor at another step: the stored
  result keeps the open commit's \<open>ID\<close> and \<open>CreatedAt\<close>; its submission files,
  action, comment, report card and transcript are the incoming ones, and
  \<open>UpdatedAt = now\<close>. It replaces the row of the open commit.
\<close>

theorem open_commit_merged:
  assumes "assignment_id = Some assignmentID"
    and "query_assignment faults t assignmentID currentUser = Inr a"
    and "Submission commit \<noteq> []"
    and "query_open_commit faults t assignmentID = Inr oc"
    and "\<not> now - Commit.UpdatedAt oc > openCommitTimeout"
    and "ProblemStepNumber oc = ProblemStepNumber commit"
    and "Commit.ID oc \<noteq> 0"
    and "\<not> save_fails faults"
  shows "let saved = prepare_commit now assignmentID currentUser (Some oc) commit
         in PostUserAssignmentCommit faults now t currentUser assignment_id commit
              = (t\<lparr>commits := update_row saved (commits t)\<rparr>, Inr saved) \<and>
            saved \<in> set (update_row saved (commits t)) \<and>
            Commit.ID saved = Commit.ID oc \<and>
            Commit.CreatedAt saved = Commit.CreatedAt oc \<and>
            Submission saved = Submission commit \<and>
            Action saved = Action commit \<and>
            Comment saved = Comment commit \<and>
            ReportCard saved = ReportCard commit \<and>
            Transcript saved = Transcript commit \<and>
            Commit.UpdatedAt saved = now"
proof -
  let ?saved = "prepare_commit now assignmentID currentUser (Some oc) commit"
  have fields: "Commit.ID ?saved = Commit.ID oc"
      "Commit.CreatedAt ?saved = Commit.CreatedAt oc"
      "Submission ?saved = Submission commit" "Action ?saved = Action commit"
      "Comment ?saved = Comment commit" "ReportCard ?saved = ReportCard commit"
      "Transcript ?saved = Transcript commit" "Commit.UpdatedAt ?saved = now"
    by (simp_all add: prepare_commit_def Let_def)
  have mem: "oc \<in> set (commits t)"
    using query_open_commit_InrD [OF assms(4)] by simp
  then have stored: "?saved \<in> set (update_row ?saved (commits t))"
    by (rule update_row_mem) (simp add: fields)
  have close: "close_old_commit faults now t (Some oc) commit = Inr (t, Some oc)"
    using assms(5,6) by (simp add: close_old_commit_def Sub_timeout)
  have save: "Save faults t ?saved
      = Inr (t\<lparr>commits := update_row ?saved (commits t)\<rparr>, ?saved)"
    using assms(7,8) fields(1) by (simp add: Save_def)
  have run: "PostUserAssignmentCommit faults now t currentUser assignment_id commit
      = (t\<lparr>commits := update_row ?saved (commits t)\<rparr>, Inr ?saved)"
    using handler_after_checks [OF assms(1,2,3), of now] assms(4) close save by simp
  show ?thesis
    using run stored fields by (simp add: Let_def)
qed

lemma handler_rejects:
  assumes "assignment_id = None
      \<or> (\<exists>assignmentID. assignment_id = Some assignmentID \<and>
            ((\<exists>e. query_assignment faults t assignmentID currentUser = Inl e)
             \<or> Submission commit = []
             \<or> query_open_commit faults t assignmentID = Inl ErrOther))"
  shows "fst (PostUserAssignmentCommit faults now t currentUser assignment_id commit) = t"
  using assms
  by (auto simp: PostUserAssignmentCommit_def split: sum.splits db_error.splits option.splits)

lemma filter_update_row_le:
  assumes "\<And>r. r \<in> set rows \<Longrightarrow> Commit.ID r = Commit.ID c \<Longrightarrow> P c \<Longrightarrow> P r"
  shows "length (filter P (update_row c rows)) \<le> length (filter P rows)"
  using assms by (induction rows) (auto simp: update_row_def)

lemma open_commits_update_le:
  assumes "\<And>r. r \<in> set rows \<Longrightarrow> Commit.ID r = Commit.ID c \<Longrightarrow>
             \<not> Closed c \<and> AssignmentID c = a \<Longrightarrow> \<not> Closed r \<and> AssignmentID r = a"
  shows "length (open_commits (update_row c rows) a) \<le> length (open_commits rows a)"
  unfolding open_commits_def using assms by (intro filter_update_row_le) blast

lemma open_commits_closed:
  assumes oc: "oc \<in> set rows" "\<not> Closed oc" "AssignmentID oc = a"
    and one: "length (open_commits rows a) \<le> 1"
    and c: "Closed c" "Commit.ID c = Commit.ID oc"
  shows "open_commits (update_row c rows) a = []"
proof -
  have "oc \<in> set (open_commits rows a)" using oc by (simp add: open_commits_def)
  then have only: "open_commits rows a = [oc]"
    using one by (cases "open_commits rows a") auto
  have "\<not> (\<not> Closed r' \<and> AssignmentID r' = a)" if "r' \<in> set (update_row c rows)" for r'
  proof -
    from that obtain r where r: "r \<in> set rows"
        and r': "r' = (if Commit.ID r = Commit.ID c then c else r)"
      by (auto simp: update_row_def)
    show ?thesis
    proof (cases "Commit.ID r = Commit.ID c")
      case True
      then show ?thesis using r' c by simp
    next
      case False
      have "r \<notin> set (open_commits rows a)" using only False c by auto
      then show ?thesis using r r' False by (simp add: open_commits_def)
    qed
  qed
  then show ?thesis by (auto simp: open_commits_def filter_empty_conv)
qed

lemma open_commits_insert:
  "length (open_commits (rows @ [c]) a) =
     length (open_commits rows a) + (if \<not> Closed c \<and> AssignmentID c = a then 1 else 0)"
  by (simp add: open_commits_def)

lemma query_open_commit_none:
  "query_open_commit faults t assignmentID = Inl ErrNoRows \<Longrightarrow>
     open_commits (commits t) assignmentID = []"
  by (auto simp: query_open_commit_def open_commits_def
      split: if_splits option.splits dest: find_None_filter)

lemma prepare_commit_assignment [simp]:
  "AssignmentID (prepare_commit now assignmentID userID openCommit commit) = assignmentID"
  by (simp add: prepare_commit_def Let_def split: option.splits)

lemma prepare_commit_ID [simp]:
  "Commit.ID (prepare_commit now assignmentID userID openCommit commit) =
     (case openCommit of None \<Rightarrow> 0 | Some oc \<Rightarrow> Commit.ID oc)"
  by (simp add: prepare_commit_def Let_def split: option.splits)

text \<open>Saving a fresh commit (key zero) where the assignment has no open commit.\<close>

lemma Save_fresh_invariant:
  assumes ok: "primary_key_ok (commits t)"
    and one: "length (open_commits (commits t) a) \<le> 1"
    and none: "AssignmentID c = a \<Longrightarrow> open_commits (commits t) a = []"
    and key: "Commit.ID c = 0"
  shows "case Save faults t c of
           Inl err \<Rightarrow> True
         | Inr (t', saved) \<Rightarrow>
             primary_key_ok (commits t') \<and> length (open_commits (commits t') a) \<le> 1"
proof (cases "save_fails faults")
  case True
  then show ?thesis by (simp add: Save_def)
next
  case False
  let ?saved = "c\<lparr>Commit.ID := next_id (commits t)\<rparr>"
  have "length (open_commits (commits t @ [?saved]) a) \<le> 1"
    using one none by (cases "AssignmentID c = a") (auto simp: open_commits_insert)
  then show ?thesis
    using False key primary_key_ok_insert [OF ok, of c] by (simp add: Save_def Let_def)
qed

text \<open>Saving over the open commit of the assignment (its key is kept).\<close>

lemma Save_merge_invariant:
  assumes ok: "primary_key_ok (commits t)"
    and one: "length (open_commits (commits t) a) \<le> 1"
    and oc: "oc \<in> set (commits t)" "\<not> Closed oc" "AssignmentID oc = AssignmentID c"
    and key: "Commit.ID c = Commit.ID oc"
  shows "case Save faults t c of
           Inl err \<Rightarrow> True
         | Inr (t', saved) \<Rightarrow>
             primary_key_ok (commits t') \<and> length (open_commits (commits t') a) \<le> 1"
proof (cases "save_fails faults")
  case True
  then show ?thesis by (simp add: Save_def)
next
  case False
  have pos: "Commit.ID c \<noteq> 0"
    using ok oc(1) key by (auto simp: primary_key_ok_def list_all_iff)
  have inj: "inj_on Commit.ID (set (commits t))"
    using ok by (simp add: primary_key_ok_def distinct_map)
  have same: "r = oc" if "r \<in> set (commits t)" "Commit.ID r = Commit.ID c" for r
    using inj that oc(1) key by (auto dest: inj_onD)
  have "length (open_commits (update_row c (commits t)) a) \<le> length (open_commits (commits t) a)"
    by (rule open_commits_update_le) (use same oc in auto)
  then have "length (open_commits (update_row c (commits t)) a) \<le> 1"
    using one by simp
  then show ?thesis
    using False pos primary_key_ok_update [OF ok oc(1) key [symmetric]]
    by (simp add: Save_def)
qed

text \<open>
  Claim C3. One execution of the handler, whatever its inputs and whichever database
  calls fail, keeps the primary key constraint and takes a table with at most one open
  commit for an assignment to a table with at most one open commit for that assignment.
\<close>

theorem at_most_one_open_commit_preserved:
  assumes ok: "primary_key_ok (commits t)"
    and one: "length (open_commits (commits t) a) \<le> 1"
  shows "primary_key_ok
           (commits (fst (PostUserAssignmentCommit faults now t currentUser assignment_id commit)))
         \<and> length (open_commits
              (commits (fst (PostUserAssignmentCommit faults now t currentUser assignment_id commit)))
              a) \<le> 1"
proof -
  let ?run = "PostUserAssignmentCommit faults now t currentUser assignment_id commit"
  consider
    (rejected) "fst ?run = t"
  | (checked) assignmentID asg where "assignment_id = Some assignmentID"
      "query_assignment faults t assignmentID currentUser = Inr asg"
      "Submission commit \<noteq> []"
      "query_open_commit faults t assignmentID \<noteq> Inl ErrOther"
  proof (cases assignment_id)
    case None
    then show ?thesis using handler_rejects [of assignment_id] rejected by blast
  next
    case (Some assignmentID)
    show ?thesis
    proof (cases "(\<exists>e. query_assignment faults t assignmentID currentUser = Inl e)
             \<or> Submission commit = []
             \<or> query_open_commit faults t assignmentID = Inl ErrOther")
      case True
      then show ?thesis using handler_rejects [of assignment_id faults t currentUser commit now]
          Some rejected by blast
    next
      case False
      then obtain asg where "query_assignment faults t assignmentID currentUser = Inr asg"
        by (cases "query_assignment faults t assignmentID currentUser") auto
      then show ?thesis using False Some checked by blast
    qed
  qed
  then show ?thesis
  proof cases
    case rejected
    then show ?thesis using ok one by simp
  next
    case checked
    note run = handler_after_checks [OF checked, of now]
    show ?thesis
    proof (cases "query_open_commit faults t assignmentID")
      case (Inl e)
      then have e: "query_open_commit faults t assignmentID = Inl ErrNoRows"
        using checked(4) by (cases e) auto
      have none: "a = assignmentID \<Longrightarrow> open_commits (commits t) a = []"
        using e by (simp add: query_open_commit_none)
      have "case Save faults t (prepare_commit now assignmentID currentUser None commit) of
              Inl err \<Rightarrow> True
            | Inr (t', saved) \<Rightarrow>
                primary_key_ok (commits t') \<and> length (open_commits (commits t') a) \<le> 1"
        by (rule Save_fresh_invariant [OF ok one]) (use none in auto)
      then show ?thesis
        using ok one by (auto simp: run e close_old_commit_def split: sum.splits)
    next
      case (Inr oc)
      note oc = query_open_commit_InrD [OF Inr]
      show ?thesis
      proof (cases "Sub now (Commit.UpdatedAt oc) > openCommitTimeout
               \<or> ProblemStepNumber oc \<noteq> ProblemStepNumber commit")
        case stale: True
        let ?closed = "oc\<lparr>Closed := True, Commit.UpdatedAt := now\<rparr>"
        let ?t1 = "t\<lparr>commits := update_row ?closed (commits t)\<rparr>"
        show ?thesis
        proof (cases "update_fails faults")
          case True
          then show ?thesis
            using stale ok one by (auto simp: run Inr close_old_commit_def Update_def)
        next
          case False
          have ok1: "primary_key_ok (commits ?t1)"
            using primary_key_ok_update [OF ok, of oc ?closed] oc by simp
          have "length (open_commits (update_row ?closed (commits t)) a)
              \<le> length (open_commits (commits t) a)"
            by (rule open_commits_update_le) simp
          then have one1: "length (open_commits (commits ?t1) a) \<le> 1"
            using one by simp
          have none1: "a = assignmentID \<Longrightarrow> open_commits (commits ?t1) a = []"
            using open_commits_closed [of oc "commits t" a ?closed] oc one by simp
          have "case Save faults ?t1 (prepare_commit now assignmentID currentUser None commit) of
                  Inl err \<Rightarrow> True
                | Inr (t', saved) \<Rightarrow>
                    primary_key_ok (commits t') \<and> length (open_commits (commits t') a) \<le> 1"
            by (rule Save_fresh_invariant [OF ok1 one1]) (use none1 in auto)
          then show ?thesis
            using ok1 one1 stale False
            by (auto simp: run Inr close_old_commit_def Update_def split: sum.splits)
        qed
      next
        case fresh: False
        have "case Save faults t (prepare_commit now assignmentID currentUser (Some oc) commit) of
                Inl err \<Rightarrow> True
              | Inr (t', saved) \<Rightarrow>
                  primary_key_ok (commits t') \<and> length (open_commits (commits t') a) \<le> 1"
          by (rule Save_merge_invariant [OF ok one, of oc]) (use oc in auto)
        then show ?thesis
          using ok one fresh by (auto simp: run Inr close_old_commit_def split: sum.splits)
      qed
    qed
  qed
qed

lemma handler_InrD:
  assumes "PostUserAssignmentCommit faults now t currentUser assignment_id commit = (t', Inr saved)"
  shows "\<exists>assignmentID t1 openCommit.
           assignment_id = Some assignmentID \<and>
           (case openCommit of None \<Rightarrow> True | Some oc \<Rightarrow> t1 = t \<and> oc \<in> set (commits t)) \<and>
           Save faults t1 (prepare_commit now assignmentID currentUser openCommit commit)
             = Inr (t', saved)"
proof -
  from assms obtain assignmentID where aid: "assignment_id = Some assignmentID"
    by (cases assignment_id) (auto simp: PostUserAssignmentCommit_def)
  from assms aid obtain asg where asg: "query_assignment faults t assignmentID currentUser = Inr asg"
    by (cases "query_assignment faults t assignmentID currentUser")
       (auto simp: PostUserAssignmentCommit_def split: db_error.splits)
  from assms aid asg have sub: "Submission commit \<noteq> []"
    by (auto simp: PostUserAssignmentCommit_def)
  from assms aid asg sub have q: "query_open_commit faults t assignmentID \<noteq> Inl ErrOther"
    by (auto simp: PostUserAssignmentCommit_def)
  note run = handler_after_checks [OF aid asg sub q, of now]
  let ?found = "case query_open_commit faults t assignmentID of
                  Inl err \<Rightarrow> None | Inr oc \<Rightarrow> Some oc"
  from assms run obtain t1 openCommit where
      close: "close_old_commit faults now t ?found commit = Inr (t1, openCommit)"
      and save: "Save faults t1 (prepare_commit now assignmentID currentUser openCommit commit)
                   = Inr (t', saved)"
    by (auto split: sum.splits)
  have "case openCommit of None \<Rightarrow> True | Some oc \<Rightarrow> t1 = t \<and> oc \<in> set (commits t)"
    using close query_open_commit_InrD [of faults t assignmentID]
    by (auto simp: close_old_commit_def split: option.splits sum.splits if_splits)
  with aid save show ?thesis by blast
qed

lemma Save_InrD:
  assumes "Save faults t c = Inr (t', saved)"
  shows "saved = c\<lparr>Commit.ID := Commit.ID saved\<rparr> \<and>
         (if Commit.ID c = 0 then commits t' = commits t @ [saved]
          else saved = c \<and> commits t' = update_row c (commits t))"
  using assms by (auto simp: Save_def Let_def split: if_splits)

lemma handler_stores_response:
  assumes "PostUserAssignmentCommit faults now t currentUser assignment_id commit = (t', Inr saved)"
  shows "\<exists>assignmentID openCommit.
           saved = (prepare_commit now assignmentID currentUser openCommit commit)
                     \<lparr>Commit.ID := Commit.ID saved\<rparr> \<and>
           saved \<in> set (commits t')"
proof -
  from handler_InrD [OF assms] obtain assignmentID t1 openCommit where
      oc: "case openCommit of None \<Rightarrow> True | Some oc \<Rightarrow> t1 = t \<and> oc \<in> set (commits t)"
      and save: "Save faults t1 (prepare_commit now assignmentID currentUser openCommit commit)
                   = Inr (t', saved)"
    by blast
  let ?c = "prepare_commit now assignmentID currentUser openCommit commit"
  note s = Save_InrD [OF save]
  have "saved \<in> set (commits t')"
  proof (cases "Commit.ID ?c = 0")
    case True
    then show ?thesis using s by simp
  next
    case False
    then obtain o' where o': "openCommit = Some o'" by (cases openCommit) auto
    then have "o' \<in> set (commits t1)" "Commit.ID o' = Commit.ID ?c" using oc by auto
    then have "?c \<in> set (update_row ?c (commits t1))" by (rule update_row_mem)
    then show ?thesis using s False by simp
  qed
  with s show ?thesis by blast
qed

text \<open>
  Claim C4. When the incoming commit has a report card or at least one transcript event,
  the commit the handler persists and returns has \<open>Closed = true\<close>, in every branch.
\<close>

theorem graded_submission_is_closed:
  assumes "ReportCard commit \<noteq> None \<or> length (Transcript commit) > 0"
    and "PostUserAssignmentCommit faults now t currentUser assignment_id commit = (t', Inr saved)"
  shows "Closed saved \<and> saved \<in> set (commits t')"
proof -
  from handler_stores_response [OF assms(2)] obtain assignmentID openCommit where
      eq: "saved = (prepare_commit now assignmentID currentUser openCommit commit)
                     \<lparr>Commit.ID := Commit.ID saved\<rparr>"
      and mem: "saved \<in> set (commits t')"
    by blast
  have "Closed (prepare_commit now assignmentID currentUser openCommit commit)"
    using assms(1) by (auto simp: prepare_commit_def Let_def split: option.splits)
  then have "Closed saved" by (subst eq) simp
  with mem show ?thesis by simp
qed

lemma transcript_stored_as_received:
  assumes "PostUserAssignmentCommit faults now t currentUser assignment_id commit = (t', Inr saved)"
  shows "Transcript saved = Transcript commit \<and> saved \<in> set (commits t')"
proof -
  from handler_stores_response [OF assms] obtain assignmentID openCommit where
      eq: "saved = (prepare_commit now assignmentID currentUser openCommit commit)
                     \<lparr>Commit.ID := Commit.ID saved\<rparr>"
      and mem: "saved \<in> set (commits t')"
    by blast
  have "Transcript (prepare_commit now assignmentID currentUser openCommit commit)
      = Transcript commit"
    by (auto simp: prepare_commit_def Let_def split: option.splits)
  then have "Transcript saved = Transcript commit" by (subst eq) simp
  with mem show ?thesis by simp
qed

lemma example_queries:
  "query_assignment no_faults example_tx 7 3 = Inr (7, 3)"
  "query_open_commit no_faults example_tx 7 = Inr example_open_commit"
  by (simp_all add: query_assignment_def query_open_commit_def no_faults_def example_tx_def
      example_open_commit_def)

lemma example_facts:
  "Submission example_submission \<noteq> []"
  "Commit.UpdatedAt example_open_commit = 2000"
  "Commit.ID example_open_commit = 1"
  "ProblemStepNumber example_open_commit = ProblemStepNumber example_submission"
  "\<not> update_fails no_faults" "\<not> save_fails no_faults"
  "primary_key_ok (commits example_tx)"
  "open_commits (commits example_tx) 7 = [example_open_commit]"
  by (simp_all add: example_submission_def example_open_commit_def no_faults_def
      primary_key_ok_def open_commits_def example_tx_def)

theorem stale_commit_closed_and_recreated_witness:
  "query_open_commit no_faults example_tx 7 = Inr example_open_commit \<and>
   2000000000000 - Commit.UpdatedAt example_open_commit > openCommitTimeout \<and>
   PostUserAssignmentCommit no_faults 2000000000000 example_tx 3 (Some 7) example_submission =
     (\<lparr>assignments = [(7, 3)],
       commits = [example_open_commit\<lparr>Closed := True, Commit.UpdatedAt := 2000000000000\<rparr>,
                  example_submission\<lparr>Commit.ID := 2, AssignmentID := 7, UserID := 3,
                    Commit.CreatedAt := 2000000000000, Commit.UpdatedAt := 2000000000000\<rparr>]\<rparr>,
      Inr (example_submission\<lparr>Commit.ID := 2, AssignmentID := 7, UserID := 3,
             Commit.CreatedAt := 2000000000000, Commit.UpdatedAt := 2000000000000\<rparr>))"
  using stale_commit_closed_and_recreated [of "Some 7" 7 no_faults example_tx 3 "(7, 3)"
          example_submission example_open_commit 2000000000000]
  by (simp add: example_queries example_facts openCommitTimeout_def Let_def)
     (simp add: example_tx_def update_row_def next_id_def prepare_commit_def
        example_submission_def example_open_commit_def)

theorem open_commit_merged_witness:
  "query_open_commit no_faults example_tx 7 = Inr example_open_commit \<and>
   \<not> 3000 - Commit.UpdatedAt example_open_commit > openCommitTimeout \<and>
   ProblemStepNumber example_open_commit = ProblemStepNumber example_submission \<and>
   PostUserAssignmentCommit no_faults 3000 example_tx 3 (Some 7) example_submission =
     (\<lparr>assignments = [(7, 3)],
       commits = [example_submission\<lparr>Commit.ID := 1, AssignmentID := 7, UserID := 3,
                    Commit.CreatedAt := 1000, Commit.UpdatedAt := 3000\<rparr>]\<rparr>,
      Inr (example_submission\<lparr>Commit.ID := 1, AssignmentID := 7, UserID := 3,
             Commit.CreatedAt := 1000, Commit.UpdatedAt := 3000\<rparr>))"
  using open_commit_merged [of "Some 7" 7 no_faults example_tx 3 "(7, 3)"
          example_submission example_open_commit 3000]
  by (simp add: example_queries example_facts openCommitTimeout_def Let_def)
     (simp add: example_tx_def update_row_def prepare_commit_def
        example_submission_def example_open_commit_def)

theorem at_most_one_open_commit_preserved_witness:
  "primary_key_ok (commits example_tx) \<and>
   length (open_commits (commits example_tx) 7) \<le> 1 \<and>
   primary_key_ok
     (commits (fst (PostUserAssignmentCommit no_faults 2000000000000 example_tx 3 (Some 7)
        example_submission))) \<and>
   length (open_commits
     (commits (fst (PostUserAssignmentCommit no_faults 2000000000000 example_tx 3 (Some 7)
        example_submission))) 7) \<le> 1"
  using at_most_one_open_commit_preserved [of example_tx 7 no_faults 2000000000000 3 "Some 7"
          example_submission]
  by (simp add: example_facts)

lemma example_merge:
  assumes "Submission c \<noteq> []" and "ProblemStepNumber c = 1"
  shows "PostUserAssignmentCommit no_faults 3000 example_tx 3 (Some 7) c =
     (example_tx\<lparr>commits := [prepare_commit 3000 7 3 (Some example_open_commit) c]\<rparr>,
      Inr (prepare_commit 3000 7 3 (Some example_open_commit) c))"
proof -
  let ?saved = "prepare_commit 3000 7 3 (Some example_open_commit) c"
  have close: "close_old_commit no_faults 3000 example_tx (Some example_open_commit) c
      = Inr (example_tx, Some example_open_commit)"
    using assms(2)
    by (simp add: close_old_commit_def Sub_def maxDuration_def minDuration_def
        openCommitTimeout_def example_open_commit_def)
  have save: "Save no_faults example_tx ?saved
      = Inr (example_tx\<lparr>commits := [?saved]\<rparr>, ?saved)"
    by (simp add: Save_def no_faults_def update_row_def example_tx_def)
       (simp add: example_open_commit_def)
  show ?thesis
    using handler_after_checks [OF refl example_queries(1) assms(1), of 3000]
    by (simp add: example_queries close save)
qed

theorem graded_submission_is_closed_witness:
  "ReportCard (example_submission\<lparr>ReportCard := Some ''passed''\<rparr>) \<noteq> None \<and>
   PostUserAssignmentCommit no_faults 3000 example_tx 3 (Some 7)
       (example_submission\<lparr>ReportCard := Some ''passed''\<rparr>) =
     (example_tx\<lparr>commits := [prepare_commit 3000 7 3 (Some example_open_commit)
                      (example_submission\<lparr>ReportCard := Some ''passed''\<rparr>)]\<rparr>,
      Inr (prepare_commit 3000 7 3 (Some example_open_commit)
             (example_submission\<lparr>ReportCard := Some ''passed''\<rparr>))) \<and>
   Closed (prepare_commit 3000 7 3 (Some example_open_commit)
             (example_submission\<lparr>ReportCard := Some ''passed''\<rparr>)) \<and>
   \<not> Closed (example_submission\<lparr>ReportCard := Some ''passed''\<rparr>)"
proof -
  let ?commit = "example_submission\<lparr>ReportCard := Some ''passed''\<rparr>"
  have run: "PostUserAssignmentCommit no_faults 3000 example_tx 3 (Some 7) ?commit =
     (example_tx\<lparr>commits := [prepare_commit 3000 7 3 (Some example_open_commit) ?commit]\<rparr>,
      Inr (prepare_commit 3000 7 3 (Some example_open_commit) ?commit))"
    by (rule example_merge) (simp_all add: example_submission_def)
  have graded: "ReportCard ?commit \<noteq> None \<or> length (Transcript ?commit) > 0" by simp
  show ?thesis
    using graded_submission_is_closed [OF graded run] run
    by (simp add: example_submission_def)
qed

text \<open>
  Claim C9 at a failing input: a submission with 501 transcript events, more than
  \<open>transcriptEventCountLimit\<close>, is accepted and stored with all 501 events.
\<close>

theorem oversized_transcript_is_stored:
  "transcriptEventCountLimit <
     length (Transcript (example_submission\<lparr>Transcript := replicate 501 (Some ''event'')\<rparr>)) \<and>
   (case PostUserAssignmentCommit no_faults 3000 example_tx 3 (Some 7)
           (example_submission\<lparr>Transcript := replicate 501 (Some ''event'')\<rparr>) of
      (t', Inl status) \<Rightarrow> False
    | (t', Inr saved) \<Rightarrow>
        saved \<in> set (commits t') \<and> length (Transcript saved) = 501 \<and>
        transcriptEventCountLimit < length (Transcript saved))"
proof -
  let ?commit = "example_submission\<lparr>Transcript := replicate 501 (Some ''event'')\<rparr>"
  let ?saved = "prepare_commit 3000 7 3 (Some example_open_commit) ?commit"
  have run: "PostUserAssignmentCommit no_faults 3000 example_tx 3 (Some 7) ?commit
      = (example_tx\<lparr>commits := [?saved]\<rparr>, Inr ?saved)"
    by (rule example_merge) (simp_all add: example_submission_def)
  show ?thesis
    using transcript_stored_as_received [OF run]
    by (simp add: run transcriptEventCountLimit_def)
qed

section \<open>The file gatherer\<close>

lemma walk_names_of_problemDir:
  assumes "list_all (readable dotfile wl) entries"
  shows "walk_names (walkFn dotfile wl) [] entries g =
     (Continue,
      g\<lparr>files := fold (\<lambda>(name, c). AList.update name c)
                  (filter (\<lambda>(name, c). listed dotfile wl name) (regular_files entries))
                  (files g),
        skipped := skipped g @ filter (unlisted dotfile wl) (regular_names entries)\<rparr>)"
  using assms
proof (induction entries arbitrary: g)
  case Nil
  then show ?case by simp
next
  case (Cons entry rest)
  show ?case
  proof (cases entry)
    case (RegularFile name contents)
    then show ?thesis
      using Cons
      by (cases contents) (auto simp: walkFn_def listed_def unlisted_def)
  next
    case (OtherFile name)
    then show ?thesis using Cons by (simp add: walkFn_def)
  next
    case (Dir name entries)
    then show ?thesis using Cons by (simp add: walkFn_def)
  next
    case (Broken name)
    then show ?thesis using Cons by simp
  qed
qed

text \<open>
  Claim C8, as the code has it. When no entry of the problem directory fails \<open>Lstat\<close>
  and every whitelisted regular file in it can be read, the gatherer returns the
  whitelisted regular files that are entries of the problem directory itself, the metadata
  file left out, and has logged as skipped (a warning, not an error) the other regular
  files that are entries of the problem directory itself. Directories are not part of the
  result, and a subdirectory is skipped whole: nothing in it is added or logged.
\<close>

theorem gather_files_direct_entries_only:
  assumes "list_all (readable perProblemSetDotFile Whitelist) entries"
  shows "gather_files perProblemSetDotFile Whitelist (Dir problemDir entries) =
     Inr \<lparr>files = fold (\<lambda>(name, c). AList.update name c)
                    (filter (\<lambda>(name, c). listed perProblemSetDotFile Whitelist name)
                       (regular_files entries)) [],
          skipped = filter (unlisted perProblemSetDotFile Whitelist) (regular_names entries)\<rparr>"
  using walk_names_of_problemDir [OF assms, of "\<lparr>files = [], skipped = []\<rparr>"]
  by (simp add: gather_files_def walkFn_def)

theorem gather_files_direct_entries_only_witness:
  "list_all (readable ''.grind'' example_whitelist)
     [RegularFile ''main.py'' (Some ''print(1)''), RegularFile ''notes'' None,
      Dir ''tests'' [Broken ''util.py''], OtherFile ''link'', RegularFile ''.grind'' None] \<and>
   gather_files ''.grind'' example_whitelist
     (Dir ''hw1''
        [RegularFile ''main.py'' (Some ''print(1)''), RegularFile ''notes'' None,
         Dir ''tests'' [Broken ''util.py''], OtherFile ''link'', RegularFile ''.grind'' None])
     = Inr \<lparr>files = [(''main.py'', ''print(1)'')], skipped = [''notes'']\<rparr>"
  using gather_files_direct_entries_only [of "''.grind''" example_whitelist
          "[RegularFile ''main.py'' (Some ''print(1)''), RegularFile ''notes'' None,
            Dir ''tests'' [Broken ''util.py''], OtherFile ''link'', RegularFile ''.grind'' None]"
          "''hw1''"]
  by (simp add: example_whitelist_def listed_def unlisted_def)

text \<open>
  Claim C8 as stated fails: \<open>util.py\<close> is a whitelisted regular file in a subdirectory
  of the problem directory, and the gatherer neither adds it nor logs it.
\<close>

theorem gather_files_subdirectory_counterexample:
  "map_of example_whitelist ''util.py'' = Some True \<and>
   gather_files ''.grind'' example_whitelist example_dir =
     Inr \<lparr>files = [(''main.py'', ''print(1)'')], skipped = [''scratch.txt'']\<rparr>"
  by (simp add: gather_files_def example_whitelist_def example_dir_def walkFn_def)

section \<open>Problem normalization\<close>

lemma TrimSpace_Nil: "TrimSpace [] = []"
  by (simp add: TrimSpace_def TrimLeftSpace.simps TrimRightSpace.simps leading_space_def
      trailing_space_def space_runes_def List.map_filter_def)

text \<open>
  Claim C10. \<open>Problem.Normalize\<close> returns \<open>nil\<close> exactly when the trimmed unique ID is
  non-empty and URL friendly, the trimmed note is non-empty, there is at least one step and
  the timestamps are in range: what \<open>ProblemStep.Normalize\<close> returns for the steps plays
  no part, so a step with an empty note or without instructions does not make it fail. An
  empty unique ID, an empty note, an empty list of steps or a timestamp out of range always
  makes it return an error.
\<close>

theorem Problem_Normalize_drops_step_errors:
  "(fst (Problem_Normalize lib now problem steps) = None \<longleftrightarrow>
      TrimSpace (Unique problem) \<noteq> [] \<and>
      QueryEscape (TrimSpace (Unique problem)) = TrimSpace (Unique problem) \<and>
      TrimSpace (Problem.Note problem) \<noteq> [] \<and>
      steps \<noteq> [] \<and>
      timestamps_ok now problem) \<and>
   (Unique problem = [] \<or> Problem.Note problem = [] \<or> steps = [] \<or>
    \<not> timestamps_ok now problem
      \<longrightarrow> fst (Problem_Normalize lib now problem steps) \<noteq> None)"
  by (auto simp: Problem_Normalize_def Let_def timestamps_ok_def TrimSpace_Nil)

lemma example_trimmed:
  "TrimSpace ''example'' = ''example''"
  "TrimSpace ''an example'' = ''an example''"
  "TrimSpace ''  '' = []"
  "TrimSpace ''second step'' = ''second step''"
  by code_simp+

lemma example_escaped: "QueryEscape ''example'' = ''example''"
  by code_simp

theorem Problem_Normalize_drops_step_errors_witness:
  "fst (ProblemStep_Normalize example_libraries 1 (example_step1\<lparr>ProblemStep.Note := ''  ''\<rparr>))
     = Some (MissingNote 2) \<and>
   fst (ProblemStep_Normalize example_libraries 2 example_step2)
     = Some (InstructionsError 3 NoDocumentation) \<and>
   timestamps_ok 1600000000000000000 example_problem \<and>
   fst (Problem_Normalize example_libraries 1600000000000000000 example_problem
          [example_step1\<lparr>ProblemStep.Note := ''  ''\<rparr>, example_step2]) = None \<and>
   fst (Problem_Normalize example_libraries 1600000000000000000 example_problem []) \<noteq> None"
proof -
  have ok: "timestamps_ok 1600000000000000000 example_problem"
    by (simp add: timestamps_ok_def example_problem_def BeginningOfTime_def)
  have s1: "fst (ProblemStep_Normalize example_libraries 1
                  (example_step1\<lparr>ProblemStep.Note := ''  ''\<rparr>)) = Some (MissingNote 2)"
    by (simp add: ProblemStep_Normalize_def Let_def example_trimmed)
  have s2: "fst (ProblemStep_Normalize example_libraries 2 example_step2)
      = Some (InstructionsError 3 NoDocumentation)"
    by (simp add: ProblemStep_Normalize_def Let_def example_trimmed example_step2_def
        BuildInstructions_def)
  have fields: "Unique example_problem = ''example''"
      "Problem.Note example_problem = ''an example''"
    by (simp_all add: example_problem_def)
  show ?thesis
    using Problem_Normalize_drops_step_errors [of example_libraries 1600000000000000000
            example_problem "[example_step1\<lparr>ProblemStep.Note := ''  ''\<rparr>, example_step2]"]
          Problem_Normalize_drops_step_errors [of example_libraries 1600000000000000000
            example_problem "[]"]
          ok s1 s2
    by (simp add: fields example_trimmed example_escaped)
qed

section \<open>The signature encoding\<close>

subsection \<open>Decimal numbers\<close>

lemma digit_char_is_digit: "n < 10 \<Longrightarrow> is_digit (digit_char n)"
  unfolding is_digit_def digit_char_def by (rule nth_mem) simp

lemma digit_char_inj: "n < 10 \<Longrightarrow> m < 10 \<Longrightarrow> digit_char n = digit_char m \<Longrightarrow> n = m"
  unfolding digit_char_def
  by (subst (asm) nth_eq_iff_index_eq) simp_all

lemma digits_not_Nil: "digits n \<noteq> []"
  by (subst digits.simps) simp

lemma digits_all_digits: "c \<in> set (digits n) \<Longrightarrow> is_digit c"
proof (induction n arbitrary: c rule: digits.induct)
  case (1 n)
  show ?case
  proof (cases "n < 10")
    case True
    then show ?thesis using "1.prems" by (simp add: digits.simps [of n] digit_char_is_digit)
  next
    case False
    then show ?thesis
      using "1.prems" "1.IH" by (auto simp: digits.simps [of n] digit_char_is_digit)
  qed
qed

lemma digits_inj: "digits n = digits m \<Longrightarrow> n = m"
proof (induction n arbitrary: m rule: digits.induct)
  case (1 n)
  show ?case
  proof (cases "n < 10")
    case small: True
    show ?thesis
    proof (cases "m < 10")
      case True
      then show ?thesis
        using small "1.prems" by (simp add: digits.simps [of n] digits.simps [of m] digit_char_inj)
    next
      case False
      then show ?thesis
        using small "1.prems" digits_not_Nil [of "m div 10"]
        by (simp add: digits.simps [of n] digits.simps [of m])
    qed
  next
    case large: False
    show ?thesis
    proof (cases "m < 10")
      case True
      then show ?thesis
        using large "1.prems" digits_not_Nil [of "n div 10"]
        by (simp add: digits.simps [of n] digits.simps [of m])
    next
      case False
      then have "digits (n div 10) = digits (m div 10)"
          and "digit_char (n mod 10) = digit_char (m mod 10)"
        using large "1.prems" by (simp_all add: digits.simps [of n] digits.simps [of m])
      then have "n div 10 = m div 10" and "n mod 10 = m mod 10"
        using "1.IH" [OF large] by (simp_all add: digit_char_inj)
      then show ?thesis by (metis div_mult_mod_eq)
    qed
  qed
qed

lemma minus_not_digit: "\<not> is_digit CHR ''-''"
  by (simp add: is_digit_def)

lemma FormatInt_inj: "FormatInt a = FormatInt b \<Longrightarrow> a = b"
proof -
  assume eq: "FormatInt a = FormatInt b"
  have first: "is_digit (hd (digits n))" for n
    using digits_all_digits [of "hd (digits n)" n] digits_not_Nil [of n] by simp
  have neq: "CHR ''-'' # digits n \<noteq> digits m" for n m
    using first [of m] digits_not_Nil [of m] minus_not_digit by (cases "digits m") auto
  show ?thesis
  proof (cases "a < 0"; cases "b < 0")
    assume "a < 0" "b < 0"
    then show ?thesis using eq digits_inj [of "nat (- a)" "nat (- b)"] by (simp add: FormatInt_def)
  next
    assume "a < 0" "\<not> b < 0"
    then show ?thesis using eq neq by (simp add: FormatInt_def)
  next
    assume "\<not> a < 0" "b < 0"
    then show ?thesis using eq neq [of "nat (- b)" "nat a"] by (simp add: FormatInt_def)
  next
    assume "\<not> a < 0" "\<not> b < 0"
    then show ?thesis using eq digits_inj [of "nat a" "nat b"] by (simp add: FormatInt_def)
  qed
qed

text \<open>A decimal number followed by a hyphen: the number ends at the hyphen.\<close>

lemma digits_hyphen:
  assumes "\<forall>c \<in> set ds. is_digit c" and "\<forall>c \<in> set es. is_digit c"
    and "ds @ CHR ''-'' # r = es @ CHR ''-'' # r'"
  shows "ds = es \<and> r = r'"
  using assms
proof (induction ds arbitrary: es)
  case Nil
  then show ?case using minus_not_digit by (cases es) auto
next
  case (Cons d ds)
  then show ?case using minus_not_digit by (cases es) auto
qed

lemma FormatInt_hyphen:
  assumes "FormatInt a @ CHR ''-'' # r = FormatInt b @ CHR ''-'' # r'"
  shows "a = b \<and> r = r'"
proof -
  have dig: "\<forall>c \<in> set (digits n). is_digit c" for n
    using digits_all_digits by blast
  have first: "hd (digits n) \<noteq> CHR ''-''" "digits n \<noteq> []" for n
    using digits_all_digits [of "hd (digits n)" n] digits_not_Nil [of n] minus_not_digit
    by auto
  have mixed: "CHR ''-'' # digits n @ CHR ''-'' # s \<noteq> digits m @ CHR ''-'' # s'" for n m s s'
    using first [of m] by (cases "digits m") auto
  have "FormatInt a = FormatInt b \<and> r = r'"
  proof (cases "a < 0"; cases "b < 0")
    assume "a < 0" "b < 0"
    then show ?thesis
      using assms digits_hyphen [OF dig dig, of "nat (- a)" r "nat (- b)" r']
      by (simp add: FormatInt_def)
  next
    assume "a < 0" "\<not> b < 0"
    then show ?thesis using assms mixed by (simp add: FormatInt_def)
  next
    assume "\<not> a < 0" "b < 0"
    then show ?thesis using assms mixed [of "nat (- b)" r' "nat a" r] by (simp add: FormatInt_def)
  next
    assume "\<not> a < 0" "\<not> b < 0"
    then show ?thesis
      using assms digits_hyphen [OF dig dig, of "nat a" r "nat b" r']
      by (simp add: FormatInt_def)
  qed
  then show ?thesis using FormatInt_inj by blast
qed

lemma step_key_eq [simp]:
  "note_key a = note_key b \<longleftrightarrow> a = b"
  "weight_key a = weight_key b \<longleftrightarrow> a = b"
  "file_key a name = file_key b name' \<longleftrightarrow> a = b \<and> name = name'"
  "note_key a \<noteq> weight_key b" "weight_key a \<noteq> note_key b"
  "note_key a \<noteq> file_key b name" "file_key b name \<noteq> note_key a"
  "weight_key a \<noteq> file_key b name" "file_key b name \<noteq> weight_key a"
  using FormatInt_hyphen [of a "''note''" b "''note''"]
    FormatInt_hyphen [of a "''weight''" b "''weight''"]
    FormatInt_hyphen [of a "''file-'' @ name" b "''file-'' @ name'"]
    FormatInt_hyphen [of a "''note''" b "''weight''"]
    FormatInt_hyphen [of a "''weight''" b "''note''"]
    FormatInt_hyphen [of a "''note''" b "''file-'' @ name"]
    FormatInt_hyphen [of a "''weight''" b "''file-'' @ name"]
  by (auto simp: note_key_def weight_key_def file_key_def)


subsection \<open>Escaping\<close>











lemma QueryEscape_simps [simp]:
  "QueryEscape [] = []"
  "QueryEscape (c # cs) = escape_byte c @ QueryEscape cs"
  by (simp_all add: QueryEscape_def)



subsection \<open>Joining\<close>








subsection \<open>The multi-map\<close>





subsection \<open>What the gathered map holds\<close>
























end
